theory Spec2Isabelle
  imports Main
begin

section \<open>Strings as the JavaScript code uses them\<close>

text \<open>
  A JavaScript string is a sequence of UTF-16 code units. The model has the strings whose
  code units are below 256: a \<open>char\<close> is the code unit of that number, so the characters
  are those of Latin-1 and \<open>length\<close>, \<open>take\<close> and the substring test count code units as the
  source does. The helpers below are the string methods the analyzers call, as they
  behave on these strings.

  \<open>toLowerCase\<close> maps \<open>A\<close>..\<open>Z\<close> and the capital letters U+00C0..U+00D6 and U+00D8..U+00DE to
  the letter 32 code units above and leaves every other code unit below 256 as it is.
\<close>

definition upperCaseLetters :: "char list" where
  "upperCaseLetters =
     ''ABCDEFGHIJKLMNOPQRSTUVWXYZ'' @
     [CHR 0xC0, CHR 0xC1, CHR 0xC2, CHR 0xC3, CHR 0xC4, CHR 0xC5, CHR 0xC6, CHR 0xC7,
      CHR 0xC8, CHR 0xC9, CHR 0xCA, CHR 0xCB, CHR 0xCC, CHR 0xCD, CHR 0xCE, CHR 0xCF,
      CHR 0xD0, CHR 0xD1, CHR 0xD2, CHR 0xD3, CHR 0xD4, CHR 0xD5, CHR 0xD6, CHR 0xD8,
      CHR 0xD9, CHR 0xDA, CHR 0xDB, CHR 0xDC, CHR 0xDD, CHR 0xDE]"

definition lowerCaseLetters :: "char list" where
  "lowerCaseLetters =
     ''abcdefghijklmnopqrstuvwxyz'' @
     [CHR 0xE0, CHR 0xE1, CHR 0xE2, CHR 0xE3, CHR 0xE4, CHR 0xE5, CHR 0xE6, CHR 0xE7,
      CHR 0xE8, CHR 0xE9, CHR 0xEA, CHR 0xEB, CHR 0xEC, CHR 0xED, CHR 0xEE, CHR 0xEF,
      CHR 0xF0, CHR 0xF1, CHR 0xF2, CHR 0xF3, CHR 0xF4, CHR 0xF5, CHR 0xF6, CHR 0xF8,
      CHR 0xF9, CHR 0xFA, CHR 0xFB, CHR 0xFC, CHR 0xFD, CHR 0xFE]"

definition toLowerCase_char :: "char \<Rightarrow> char" where
  "toLowerCase_char c =
     (case map_of (zip upperCaseLetters lowerCaseLetters) c of
        Some d \<Rightarrow> d
      | None \<Rightarrow> c)"

definition toLowerCase :: "string \<Rightarrow> string" where
  "toLowerCase s = map toLowerCase_char s"

text \<open>
  \<open>toUpperCase\<close> on one of the letters \<open>Y\<close>, \<open>N\<close>, \<open>y\<close>, \<open>n\<close>, the only strings the source
  applies it to.
\<close>

definition toUpperCase_char :: "char \<Rightarrow> char" where
  "toUpperCase_char c =
     (case map_of (zip ''abcdefghijklmnopqrstuvwxyz'' ''ABCDEFGHIJKLMNOPQRSTUVWXYZ'') c of
        Some d \<Rightarrow> d
      | None \<Rightarrow> c)"

fun startsWith :: "string \<Rightarrow> string \<Rightarrow> bool" where
  "startsWith s [] = True"
| "startsWith [] (p # ps) = False"
| "startsWith (c # cs) (p # ps) = (c = p \<and> startsWith cs ps)"

text \<open>\<open>s.includes(pat)\<close>: \<open>pat\<close> occurs in \<open>s\<close> as a contiguous substring.\<close>

fun includes_str :: "string \<Rightarrow> string \<Rightarrow> bool" where
  "includes_str [] pat = (pat = [])"
| "includes_str (c # cs) pat = (startsWith (c # cs) pat \<or> includes_str cs pat)"

text \<open>
  The code units below 256 that \<open>trim\<close> strips: tab, line feed, vertical tab, form feed,
  carriage return, space and the no-break space U+00A0.
\<close>

definition isWhiteSpace :: "char \<Rightarrow> bool" where
  "isWhiteSpace c =
     (c \<in> set [CHR 0x09, CHR 0x0A, CHR 0x0B, CHR 0x0C, CHR 0x0D, CHR '' '', CHR 0xA0])"

definition trim :: "string \<Rightarrow> string" where
  "trim s = rev (dropWhile isWhiteSpace (rev (dropWhile isWhiteSpace s)))"

text \<open>\<open>s.substring(0, n)\<close>.\<close>

definition substring0 :: "nat \<Rightarrow> string \<Rightarrow> string" where
  "substring0 n s = take n s"

text \<open>\<open>xs.join(sep)\<close>.\<close>

fun join :: "string \<Rightarrow> string list \<Rightarrow> string" where
  "join sep [] = []"
| "join sep [x] = x"
| "join sep (x # y # ys) = x @ sep @ join sep (y # ys)"

text \<open>A non-negative integer inside a template literal: its decimal digits.\<close>

definition digit_char :: "nat \<Rightarrow> char" where
  "digit_char d = ''0123456789'' ! d"

fun show_nat :: "nat \<Rightarrow> string" where
  "show_nat n = (if n < 10 then [digit_char n] else show_nat (n div 10) @ [digit_char (n mod 10)])"

declare show_nat.simps [simp del]

section \<open>Design nodes\<close>

text \<open>
  A node of the design document: \<open>{ id, name, type, characters?, children? }\<close>.
  An absent \<open>name\<close> or \<open>characters\<close> is the empty string and absent \<open>children\<close> are the
  empty list: the analyzers read these fields as \<open>node.name || ''\<close>,
  \<open>node.characters || ''\<close>, \<open>node.children || []\<close> or
  \<open>node.children && node.children.length > 0\<close>, which do not tell the two apart.
  The children of the model's nodes are nodes. A document that holds \<open>null\<close> among the
  children of a node is not a tree of the model: the flat and the hierarchical extractor
  skip such a child, the structural extractor throws a \<open>TypeError\<close> on it when it counts
  the children of a container.
\<close>

datatype node = Node (nid: string) (nname: string) (ntype: string) (ncharacters: string)
  (nchildren: "node list")

section \<open>Structural analysis (component recipes)\<close>

record recipe =
  r_text :: nat
  r_buttons :: nat
  r_total :: nat

record group =
  g_name :: string
  g_id :: string
  g_type :: string
  g_recipe :: recipe
  g_signature :: string
  g_semanticKeywords :: "string list"

record text_feature =
  tf_name :: string
  tf_text :: string
  tf_id :: string

record button_feature =
  bf_name :: string
  bf_id :: string
  bf_type :: string

record features =
  f_text :: "text_feature list"
  f_buttons :: "button_feature list"
  f_groups :: "group list"

text \<open>The semantic categories and their terms, in the order of the object literal.\<close>

definition semanticMap :: "(string \<times> string list) list" where
  "semanticMap =
     [(''search'', [''search'', ''find'', ''query'', ''lookup'']),
      (''notification'', [''bell'', ''notification'', ''alert'', ''notify'']),
      (''user'', [''user'', ''profile'', ''account'', ''avatar'']),
      (''menu'', [''menu'', ''hamburger'', ''nav'', ''drawer'']),
      (''filter'', [''filter'', ''sort'', ''refine'']),
      (''location'', [''location'', ''map'', ''pin'', ''marker'', ''gps'']),
      (''time'', [''time'', ''clock'', ''schedule'', ''calendar'']),
      (''favorite'', [''favorite'', ''heart'', ''like'', ''bookmark'', ''star''])]"

definition extractSemanticKeywords :: "string \<Rightarrow> string list" where
  "extractSemanticKeywords name =
     (let normalized = toLowerCase name
      in map fst (filter (\<lambda>(category, terms). list_ex (\<lambda>term. includes_str normalized term) terms)
                    semanticMap))"

text \<open>The test of the \<open>buttonCount\<close> filter on a direct child.\<close>

definition buttonNamed :: "node \<Rightarrow> bool" where
  "buttonNamed c =
     (includes_str (toLowerCase (nname c)) ''button'' \<or>
      includes_str (toLowerCase (nname c)) ''btn'' \<or>
      includes_str (toLowerCase (nname c)) ''cta'')"

definition signature_of :: "nat \<Rightarrow> nat \<Rightarrow> string" where
  "signature_of textCount buttonCount = ''T'' @ show_nat textCount @ ''B'' @ show_nat buttonCount"

definition containerTypes :: "string list" where
  "containerTypes = [''FRAME'', ''GROUP'', ''COMPONENT'', ''INSTANCE'']"

definition buttonKeywords :: "string list" where
  "buttonKeywords = [''button'', ''btn'', ''cta'', ''action'']"

text \<open>
  What \<open>extractFeatures\<close> does at one node, before it goes into the children: the group,
  the text feature and the button feature of the node itself.
\<close>

definition extractFeatures_node :: "node \<Rightarrow> features \<Rightarrow> features" where
  "extractFeatures_node node fs =
     (let fs1 =
        (if ntype node \<in> set containerTypes then
           (let children = nchildren node;
                textCount = length (filter (\<lambda>c. ntype c = ''TEXT'') children);
                buttonCount = length (filter buttonNamed children)
            in if length children > 1 \<or> ntype node = ''COMPONENT'' \<or> ntype node = ''INSTANCE''
               then fs\<lparr>f_groups := f_groups fs @
                      [\<lparr>g_name = (if nname node = [] then ''Unnamed Group'' else nname node),
                        g_id = nid node,
                        g_type = ntype node,
                        g_recipe = \<lparr>r_text = textCount, r_buttons = buttonCount,
                                    r_total = length children\<rparr>,
                        g_signature = signature_of textCount buttonCount,
                        g_semanticKeywords = extractSemanticKeywords (nname node)\<rparr>]\<rparr>
               else fs)
         else fs);
          fs2 =
        (if ntype node = ''TEXT'' \<and> ncharacters node \<noteq> [] \<and> trim (ncharacters node) \<noteq> []
         then fs1\<lparr>f_text := f_text fs1 @
                [\<lparr>tf_name = (if nname node = [] then substring0 30 (ncharacters node)
                              else nname node),
                  tf_text = ncharacters node,
                  tf_id = nid node\<rparr>]\<rparr>
         else fs1);
          nodeName = toLowerCase (nname node)
      in if list_ex (\<lambda>keyword. includes_str nodeName keyword) buttonKeywords \<and> ntype node \<noteq> ''TEXT''
         then fs2\<lparr>f_buttons := f_buttons fs2 @
                [\<lparr>bf_name = nname node, bf_id = nid node, bf_type = ntype node\<rparr>]\<rparr>
         else fs2)"

fun extractFeatures :: "node \<Rightarrow> features \<Rightarrow> features" where
  "extractFeatures (Node i n t c cs) fs =
     fold extractFeatures cs (extractFeatures_node (Node i n t c cs) fs)"

definition no_features :: features where
  "no_features = \<lparr>f_text = [], f_buttons = [], f_groups = []\<rparr>"

section \<open>Cross-platform comparison of structural groups\<close>

datatype platform = Android | iOS | Web

record counts =
  c_Android :: nat
  c_iOS :: nat
  c_Web :: nat

text \<open>
  The value stored in the \<open>identities\<close> map. The object literal of \<open>trackIdentity\<close> has the
  properties \<open>name\<close>, \<open>signature\<close>, \<open>recipe\<close> and \<open>counts\<close> only; \<open>findSemanticEquivalents\<close>
  reads \<open>semanticKeywords\<close> from it, so the record has that property as an option, \<open>None\<close>
  being JavaScript's \<open>undefined\<close>.
\<close>

record identity =
  i_name :: string
  i_signature :: string
  i_recipe :: recipe
  i_counts :: counts
  i_semanticKeywords :: "string list option"

text \<open>The \<open>Map\<close> of identities, in insertion order.\<close>

type_synonym identities = "(string \<times> identity) list"

definition getIdentity :: "group \<Rightarrow> string" where
  "getIdentity g = g_name g @ ''|'' @ g_signature g"

fun increment :: "platform \<Rightarrow> counts \<Rightarrow> counts" where
  "increment Android c = c\<lparr>c_Android := c_Android c + 1\<rparr>"
| "increment iOS c = c\<lparr>c_iOS := c_iOS c + 1\<rparr>"
| "increment Web c = c\<lparr>c_Web := c_Web c + 1\<rparr>"

definition trackIdentity :: "platform \<Rightarrow> group \<Rightarrow> identities \<Rightarrow> identities" where
  "trackIdentity platform g ids =
     (let id = getIdentity g;
          ids1 = (if id \<in> fst ` set ids then ids
                  else ids @ [(id, \<lparr>i_name = g_name g,
                                     i_signature = g_signature g,
                                     i_recipe = g_recipe g,
                                     i_counts = \<lparr>c_Android = 0, c_iOS = 0, c_Web = 0\<rparr>,
                                     i_semanticKeywords = None\<rparr>)])
      in map (\<lambda>(k, d). if k = id then (k, d\<lparr>i_counts := increment platform (i_counts d)\<rparr>)
                         else (k, d)) ids1)"

text \<open>\<open>[...new Set(xs)]\<close>: the first occurrence of every element, in order.\<close>

definition unique :: "'a list \<Rightarrow> 'a list" where
  "unique xs = rev (remdups (rev xs))"

definition findSemanticEquivalents ::
  "identity \<Rightarrow> group list \<Rightarrow> group list \<Rightarrow> group list \<Rightarrow> string list" where
  "findSemanticEquivalents targetData androidGroups iosGroups webGroups =
     (let targetKeywords = (case i_semanticKeywords targetData of None \<Rightarrow> [] | Some ks \<Rightarrow> ks)
      in if length targetKeywords = 0 then []
         else
           (let allGroups = androidGroups @ iosGroups @ webGroups
            in unique (map g_name
                 (filter (\<lambda>g. list_ex (\<lambda>kw. kw \<in> set (g_semanticKeywords g)) targetKeywords \<and>
                               g_name g \<noteq> i_name targetData)
                    allGroups))))"

text \<open>
  An entry of \<open>results.mapping.text\<close>. The strings of \<open>countInfo\<close>, \<open>icon\<close> and \<open>details\<close> are
  built from a fixed phrase and the values interpolated into it; the model keeps the
  phrase as a constructor and the values as its arguments:
  \<^item> \<open>CountAcrossAll n\<close> is "Count: n across all", \<open>CountsPerPlatform a i w\<close> is
    "Counts - A:a, I:i, W:w";
  \<^item> \<open>IconCheck\<close> is the check mark, \<open>IconWarning\<close> the warning sign;
  \<^item> \<open>Perfect\<close> is "Structurally Perfect & Counts Match", \<open>AlternativeFound xs\<close> is
    "Alternative Implementation Found: " followed by \<open>xs\<close> joined, \<open>MissingOn ps\<close> is
    "Missing on: " followed by \<open>ps\<close> joined, \<open>CountMismatch a i w\<close> is
    "Count Mismatch (A:a, I:i, W:w)" and \<open>NoStatus\<close> is the empty string.
\<close>

datatype count_info = CountAcrossAll nat | CountsPerPlatform nat nat nat

datatype icon = IconCheck | IconWarning

datatype details =
  Perfect | AlternativeFound "string list" | MissingOn "platform list"
  | CountMismatch nat nat nat | NoStatus

record entry =
  e_name :: string
  e_platforms :: "platform list"
  e_countInfo :: count_info
  e_icon :: icon
  e_details :: details

record totals =
  t_total :: nat
  t_text :: nat
  t_buttons :: nat

text \<open>
  The result of \<open>compareFeatures\<close>; \<open>mapping.buttons\<close> and \<open>mapping.recipes\<close> stay empty in the
  source and are left out.
\<close>

record results =
  res_android :: totals
  res_ios :: totals
  res_web :: totals
  consistent :: nat
  inconsistent :: nat
  mapping_text :: "entry list"

definition max3 :: "nat \<Rightarrow> nat \<Rightarrow> nat \<Rightarrow> nat" where
  "max3 a i w = max a (max i w)"

text \<open>The body of \<open>identities.forEach\<close>: one identity, with the results so far.\<close>

definition compareIdentity ::
  "features \<Rightarrow> features \<Rightarrow> features \<Rightarrow> string \<times> identity \<Rightarrow> results \<Rightarrow> results" where
  "compareIdentity androidFeatures iosFeatures webFeatures entry_kv res =
     (let data = snd entry_kv;
          a = c_Android (i_counts data);
          i = c_iOS (i_counts data);
          w = c_Web (i_counts data);
          platformsPresent = (if a > 0 then [Android] else []) @ (if i > 0 then [iOS] else []) @
                             (if w > 0 then [Web] else []);
          allPresent = (length platformsPresent = 3);
          countsMatch = (a = i \<and> i = w);
          isConsistent = (allPresent \<and> countsMatch)
      in if isConsistent then
           res\<lparr>consistent := consistent res + a,
               mapping_text := mapping_text res @
                 [\<lparr>e_name = i_name data, e_platforms = platformsPresent,
                   e_countInfo = CountAcrossAll a, e_icon = IconCheck, e_details = Perfect\<rparr>]\<rparr>
         else
           (let res1 = res\<lparr>inconsistent := inconsistent res + max3 a i w\<rparr>;
                missing = (if a = 0 then [Android] else []) @ (if i = 0 then [iOS] else []) @
                          (if w = 0 then [Web] else []);
                semanticEquivalents =
                  findSemanticEquivalents data
                    (if Android \<in> set missing then f_groups androidFeatures else [])
                    (if iOS \<in> set missing then f_groups iosFeatures else [])
                    (if Web \<in> set missing then f_groups webFeatures else []);
                res2 = (if \<not> allPresent \<and> length semanticEquivalents > 0
                        then res1\<lparr>inconsistent := inconsistent res1 - max3 a i w,
                                  consistent := consistent res1 + max3 a i w\<rparr>
                        else res1);
                status = (if \<not> allPresent
                          then (if length semanticEquivalents > 0
                                then AlternativeFound semanticEquivalents
                                else MissingOn missing)
                          else if \<not> countsMatch then CountMismatch a i w
                          else NoStatus)
            in res2\<lparr>mapping_text := mapping_text res2 @
                 [\<lparr>e_name = i_name data, e_platforms = platformsPresent,
                   e_countInfo = CountsPerPlatform a i w, e_icon = IconWarning,
                   e_details = status\<rparr>]\<rparr>))"

definition totals_of :: "features \<Rightarrow> totals" where
  "totals_of fs = \<lparr>t_total = length (f_groups fs), t_text = length (f_text fs),
                   t_buttons = length (f_buttons fs)\<rparr>"

definition allIdentities :: "features \<Rightarrow> features \<Rightarrow> features \<Rightarrow> identities" where
  "allIdentities androidFeatures iosFeatures webFeatures =
     fold (trackIdentity Web) (f_groups webFeatures)
       (fold (trackIdentity iOS) (f_groups iosFeatures)
          (fold (trackIdentity Android) (f_groups androidFeatures) []))"

definition compareFeatures :: "features \<Rightarrow> features \<Rightarrow> features \<Rightarrow> results" where
  "compareFeatures androidFeatures iosFeatures webFeatures =
     fold (compareIdentity androidFeatures iosFeatures webFeatures)
       (allIdentities androidFeatures iosFeatures webFeatures)
       \<lparr>res_android = totals_of androidFeatures,
        res_ios = totals_of iosFeatures,
        res_web = totals_of webFeatures,
        consistent = 0, inconsistent = 0, mapping_text = []\<rparr>"

text \<open>How often an identity occurs among the groups of one platform.\<close>

definition occurrences :: "group list \<Rightarrow> string \<Rightarrow> nat" where
  "occurrences gs k = length (filter (\<lambda>g. getIdentity g = k) gs)"

section \<open>Flat feature extraction\<close>

datatype category = TEXT | BUTTON | ICON | OTHER

text \<open>
  A feature \<open>{ name, type }\<close>. The source keeps features in \<open>Set\<close>s of their
  \<open>JSON.stringify\<close> texts; two features have the same text exactly when they have the same
  name and type, so the model keeps the features themselves, each \<open>Set\<close> as the list of
  its elements in insertion order.
\<close>

record feature =
  ft_name :: string
  ft_type :: category

record flat_features =
  fl_text :: "feature list"
  fl_buttons :: "feature list"
  fl_all :: "feature list"

text \<open>\<open>set.add(x)\<close>.\<close>

definition set_add :: "'a \<Rightarrow> 'a list \<Rightarrow> 'a list" where
  "set_add x xs = (if x \<in> set xs then xs else xs @ [x])"

definition iconPatterns :: "string list" where
  "iconPatterns =
     [''heroicons'', ''material-symbols'', ''material-icons'', ''feather'', ''fontawesome'',
      ''icon'', ''/home'', ''/heart'', ''/map'', ''/explore'', ''/search'', ''/filter'',
      ''/menu'', ''/profile'', ''/settings'']"

definition isIconComponent :: "string \<Rightarrow> bool" where
  "isIconComponent name =
     (let lowerName = toLowerCase name
      in list_ex (\<lambda>pattern. includes_str lowerName pattern) iconPatterns)"

text \<open>
  The alternatives of the regular expression
  \<open>/^(sign in|sign up|login|register|submit|continue|next|back|cancel)$/\<close>: anchored at
  both ends and without the multiline flag, it accepts exactly these strings.
\<close>

definition buttonVerbs :: "string list" where
  "buttonVerbs =
     [''sign in'', ''sign up'', ''login'', ''register'', ''submit'', ''continue'', ''next'',
      ''back'', ''cancel'']"

definition classifyTextElement :: "string \<Rightarrow> string \<Rightarrow> category" where
  "classifyTextElement text nodeName =
     (let lowerText = toLowerCase text;
          lowerNodeName = toLowerCase nodeName
      in if includes_str lowerNodeName ''button'' \<or> includes_str lowerNodeName ''btn'' then BUTTON
         else if lowerText \<in> set buttonVerbs then BUTTON
         else TEXT)"

definition classifyComponent :: "string \<Rightarrow> category" where
  "classifyComponent componentName =
     (let lower = toLowerCase componentName
      in if includes_str lower ''button'' \<or> includes_str lower ''btn'' then BUTTON else OTHER)"

definition classifyGroup :: "string \<Rightarrow> category" where
  "classifyGroup groupName =
     (let lower = toLowerCase groupName
      in if includes_str lower ''(button)'' \<or> includes_str lower ''button'' \<or>
            includes_str lower ''btn''
         then BUTTON else OTHER)"

text \<open>
  The three statements that record a feature: into \<open>buttons\<close> or \<open>text\<close> by its type, and
  into \<open>all\<close>.
\<close>

definition addFeature :: "feature \<Rightarrow> flat_features \<Rightarrow> flat_features" where
  "addFeature f fs =
     (let fs1 = (if ft_type f = BUTTON then fs\<lparr>fl_buttons := set_add f (fl_buttons fs)\<rparr>
                 else fs\<lparr>fl_text := set_add f (fl_text fs)\<rparr>)
      in fs1\<lparr>fl_all := set_add f (fl_all fs1)\<rparr>)"

text \<open>What \<open>traverse\<close> does at one node, before it goes into the children.\<close>

definition traverse_node :: "node \<Rightarrow> flat_features \<Rightarrow> flat_features" where
  "traverse_node node fs =
     (let nodeType = ntype node;
          nodeName = nname node;
          hasChildren = (length (nchildren node) > 0)
      in if nodeType = ''TEXT'' then
           (let text = ncharacters node
            in if trim text \<noteq> [] then
                 (let type = classifyTextElement text nodeName
                  in addFeature \<lparr>ft_name = trim text, ft_type = type\<rparr> fs)
               else fs)
         else if nodeType = ''COMPONENT'' \<or> nodeType = ''INSTANCE'' then
           (if trim nodeName \<noteq> [] then
              (let type = classifyComponent nodeName
               in addFeature \<lparr>ft_name = nodeName, ft_type = type\<rparr> fs)
            else fs)
         else if nodeType = ''GROUP'' \<or> nodeType = ''FRAME'' then
           (if trim nodeName \<noteq> [] then
              (let isIcon = isIconComponent nodeName
               in if isIcon \<or> \<not> hasChildren then
                    (let type = (if isIcon then ICON else classifyGroup nodeName)
                     in if type \<noteq> OTHER
                        then addFeature \<lparr>ft_name = nodeName, ft_type = type\<rparr> fs
                        else fs)
                  else fs)
            else fs)
         else fs)"

fun traverse :: "node \<Rightarrow> flat_features \<Rightarrow> flat_features" where
  "traverse (Node i n t c cs) fs =
     (let fs1 = traverse_node (Node i n t c cs) fs
      in if length cs > 0 then fold traverse cs fs1 else fs1)"

definition extractFeatures_flat :: "node \<Rightarrow> flat_features" where
  "extractFeatures_flat documentNode =
     traverse documentNode \<lparr>fl_text = [], fl_buttons = [], fl_all = []\<rparr>"

section \<open>Hierarchical extraction\<close>

datatype component_type = CText | CIcon | CButton | CContainer | CInstance

text \<open>
  The structure built by \<open>extractDetailedHierarchy\<close>. \<open>s_componentType\<close> is \<open>None\<close> when no
  branch of the classification sets it; \<open>s_textContent\<close>, \<open>s_iconName\<close> and
  \<open>s_instanceName\<close> are empty where the source leaves them unset, and \<open>s_children\<close> is empty
  where the source leaves \<open>children\<close> unset.
\<close>

datatype "structure" =
  Structure (s_type: string) (s_name: string) (s_id: string) (s_depth: nat)
    (s_componentType: "component_type option") (s_textContent: string) (s_iconName: string)
    (s_instanceName: string) (s_children: "structure list")

definition isIcon :: "node \<Rightarrow> bool" where
  "isIcon node =
     (let name = toLowerCase (nname node)
      in includes_str name ''icon'' \<or> includes_str name '':'' \<or> includes_str name ''/'' \<or>
         includes_str name ''mynai'' \<or>
         (ntype node = ''INSTANCE'' \<and> (includes_str name ''icon'' \<or> includes_str name '':'')))"

definition isButton :: "node \<Rightarrow> bool" where
  "isButton node =
     (let name = toLowerCase (nname node)
      in includes_str name ''button'' \<or> includes_str name ''btn'' \<or> includes_str name ''cta'')"

fun extractDetailedHierarchy :: "node \<Rightarrow> nat \<Rightarrow> nat \<Rightarrow> structure option" where
  "extractDetailedHierarchy (Node i n t c cs) depth maxDepth =
     (if depth > maxDepth then None
      else
        (let node = Node i n t c cs;
             name = (if n = [] then ''Unnamed'' else n);
             componentType =
               (if t = ''TEXT'' then Some CText
                else if isIcon node then Some CIcon
                else if isButton node then Some CButton
                else if t = ''FRAME'' \<or> t = ''GROUP'' then Some CContainer
                else if t = ''INSTANCE'' then Some CInstance
                else None);
             textContent = (if t = ''TEXT'' then substring0 50 c else []);
             iconName = (if componentType = Some CIcon then n else []);
             instanceName = (if componentType = Some CInstance then n else []);
             children =
               map the (filter (\<lambda>r. r \<noteq> None)
                 (map (\<lambda>child. extractDetailedHierarchy child (depth + 1) maxDepth) cs))
         in Some (Structure t name i depth componentType textContent iconName instanceName
                    children)))"

record text_entry =
  te_name :: string
  te_path :: string
  te_content :: string

record named_entry =
  ne_name :: string
  ne_path :: string

record frame_entry =
  fe_name :: string
  fe_path :: string
  fe_childCount :: nat

record inventory =
  inv_texts :: "text_entry list"
  inv_icons :: "named_entry list"
  inv_buttons :: "named_entry list"
  inv_frames :: "frame_entry list"
  inv_instances :: "named_entry list"

text \<open>The inner \<open>traverse\<close> of \<open>createComponentInventory\<close>.\<close>

fun inventory_traverse :: "structure \<Rightarrow> string list \<Rightarrow> inventory \<Rightarrow> inventory" where
  "inventory_traverse (Structure t n i d ct tc icn inn cs) path ivt =
     (let currentPath = path @ [n];
          inv1 =
            (case ct of
               Some CText \<Rightarrow>
                 ivt\<lparr>inv_texts := inv_texts ivt @
                   [\<lparr>te_name = n, te_path = join '' > '' currentPath, te_content = tc\<rparr>]\<rparr>
             | Some CIcon \<Rightarrow>
                 ivt\<lparr>inv_icons := inv_icons ivt @
                   [\<lparr>ne_name = (if icn = [] then n else icn),
                     ne_path = join '' > '' currentPath\<rparr>]\<rparr>
             | Some CButton \<Rightarrow>
                 ivt\<lparr>inv_buttons := inv_buttons ivt @
                   [\<lparr>ne_name = n, ne_path = join '' > '' currentPath\<rparr>]\<rparr>
             | Some CContainer \<Rightarrow>
                 ivt\<lparr>inv_frames := inv_frames ivt @
                   [\<lparr>fe_name = n, fe_path = join '' > '' currentPath,
                     fe_childCount = length cs\<rparr>]\<rparr>
             | Some CInstance \<Rightarrow>
                 ivt\<lparr>inv_instances := inv_instances ivt @
                   [\<lparr>ne_name = (if inn = [] then n else inn),
                     ne_path = join '' > '' currentPath\<rparr>]\<rparr>
             | None \<Rightarrow> ivt)
      in fold (\<lambda>child acc. inventory_traverse child currentPath acc) cs inv1)"

definition createComponentInventory :: "structure \<Rightarrow> inventory" where
  "createComponentInventory s =
     inventory_traverse s []
       \<lparr>inv_texts = [], inv_icons = [], inv_buttons = [], inv_frames = [], inv_instances = []\<rparr>"

text \<open>
  \<open>countIconsByName\<close>: the icon names with their numbers of occurrences, each name where it
  first occurs (the order of \<open>Object.entries\<close> for names that are not array indices).
\<close>

fun countIcon :: "string \<Rightarrow> (string \<times> nat) list \<Rightarrow> (string \<times> nat) list" where
  "countIcon name [] = [(name, 1)]"
| "countIcon name ((k, v) # rest) =
     (if k = name then (k, v + 1) # rest else (k, v) # countIcon name rest)"

definition countIconsByName :: "inventory \<Rightarrow> (string \<times> nat) list" where
  "countIconsByName ivt = fold (\<lambda>icon acc. countIcon (ne_name icon) acc) (inv_icons ivt) []"

text \<open>
  \<open>hasCardPattern\<close> returns false at once when \<open>structure.children\<close> is unset. Where it is
  set and empty the inventory holds the structure alone, in one list only, and the result
  is false as well.
\<close>

definition hasCardPattern :: "structure \<Rightarrow> bool" where
  "hasCardPattern s =
     (if s_children s = [] then False
      else
        (let ivt = createComponentInventory s;
             hasText = (length (inv_texts ivt) > 0);
             hasIcon = (length (inv_icons ivt) > 0);
             hasButton = (length (inv_buttons ivt) > 0)
         in hasText \<and> (hasIcon \<or> hasButton)))"

record card_inventory =
  ci_texts :: nat
  ci_icons :: "(string \<times> nat) list"
  ci_buttons :: nat
  ci_frames :: nat
  ci_instances :: nat

text \<open>
  A card. \<open>detailedString\<close>, the rendering of the inventory as text, is left out: it is
  computed from the inventory and read by no function of the model.
\<close>

record card =
  cd_name :: string
  cd_id :: string
  cd_inventory :: card_inventory
  cd_fullStructure :: "structure"

definition isMainFeature :: "structure \<Rightarrow> bool" where
  "isMainFeature s =
     (s_type s = ''FRAME'' \<and> length (s_children s) \<ge> 2 \<and>
      (includes_str (toLowerCase (s_name s)) ''card'' \<or>
       includes_str (toLowerCase (s_name s)) ''item'' \<or>
       includes_str (toLowerCase (s_name s)) ''section'' \<or>
       includes_str (toLowerCase (s_name s)) ''header'' \<or>
       includes_str (toLowerCase (s_name s)) ''bar'' \<or>
       hasCardPattern s))"

definition makeCard :: "structure \<Rightarrow> card" where
  "makeCard s =
     (let ivt = createComponentInventory s
      in \<lparr>cd_name = s_name s, cd_id = s_id s,
          cd_inventory = \<lparr>ci_texts = length (inv_texts ivt),
                           ci_icons = countIconsByName ivt,
                           ci_buttons = length (inv_buttons ivt),
                           ci_frames = length (inv_frames ivt),
                           ci_instances = length (inv_instances ivt)\<rparr>,
          cd_fullStructure = s\<rparr>)"

fun extractCardsWithDetails :: "structure \<Rightarrow> card list \<Rightarrow> nat \<Rightarrow> card list" where
  "extractCardsWithDetails (Structure t n i d ct tc icn inn cs) cards depth =
     (let s = Structure t n i d ct tc icn inn cs
      in if depth > 10 then cards
         else if isMainFeature s \<and>
                 (length (inv_texts (createComponentInventory s)) > 0 \<or>
                  length (inv_buttons (createComponentInventory s)) > 0)
         then cards @ [makeCard s]
         else fold (\<lambda>child acc. extractCardsWithDetails child acc (depth + 1)) cs cards)"

text \<open>
  The result of \<open>extractHierarchicalFeatures\<close>; its \<open>summary\<close>, the number and the names of the
  cards, is left out.
\<close>

record hierarchical_features =
  hf_fullTree :: "structure option"
  hf_cards :: "card list"

definition extractHierarchicalFeatures :: "node \<Rightarrow> hierarchical_features" where
  "extractHierarchicalFeatures figmaDocument =
     (let tree = extractDetailedHierarchy figmaDocument 0 15;
          cards = (case tree of None \<Rightarrow> [] | Some s \<Rightarrow> extractCardsWithDetails s [] 0)
      in \<lparr>hf_fullTree = tree, hf_cards = cards\<rparr>)"

section \<open>The tree walks on a bounded call stack\<close>

text \<open>
  Each of the three walks over the document calls itself once for every level of the tree
  that it goes down, and a JavaScript engine throws a \<open>RangeError\<close> when the nested calls
  exceed what its call stack holds; none of the extractors catches it. The functions of
  this section are the three walks with \<open>frames\<close>, the number of nested calls of the walk
  that the stack still holds; \<open>None\<close> is the \<open>RangeError\<close>.
\<close>

text \<open>\<open>xs.forEach(f)\<close> on an accumulator, where a call of \<open>f\<close> may throw.\<close>

fun fold_option :: "('a \<Rightarrow> 'b \<Rightarrow> 'b option) \<Rightarrow> 'a list \<Rightarrow> 'b \<Rightarrow> 'b option" where
  "fold_option f [] acc = Some acc"
| "fold_option f (x # xs) acc =
     (case f x acc of None \<Rightarrow> None | Some acc' \<Rightarrow> fold_option f xs acc')"

text \<open>\<open>traverse\<close> of the flat extraction.\<close>

fun traverse_on_stack :: "nat \<Rightarrow> node \<Rightarrow> flat_features \<Rightarrow> flat_features option" where
  "traverse_on_stack 0 node fs = None"
| "traverse_on_stack (Suc frames) (Node i n t c cs) fs =
     (let fs1 = traverse_node (Node i n t c cs) fs
      in if length cs > 0 then fold_option (traverse_on_stack frames) cs fs1 else Some fs1)"

text \<open>\<open>extractFeatures\<close> of the structural analysis.\<close>

fun extractFeatures_on_stack :: "nat \<Rightarrow> node \<Rightarrow> features \<Rightarrow> features option" where
  "extractFeatures_on_stack 0 node fs = None"
| "extractFeatures_on_stack (Suc frames) (Node i n t c cs) fs =
     fold_option (extractFeatures_on_stack frames) cs (extractFeatures_node (Node i n t c cs) fs)"

text \<open>
  \<open>extractDetailedHierarchy\<close>: \<open>Some None\<close> is the \<open>null\<close> it returns below the depth cap. The
  \<open>map\<close> over the children throws when one of its calls does.
\<close>

fun extractDetailedHierarchy_on_stack ::
  "nat \<Rightarrow> node \<Rightarrow> nat \<Rightarrow> nat \<Rightarrow> structure option option" where
  "extractDetailedHierarchy_on_stack 0 node depth maxDepth = None"
| "extractDetailedHierarchy_on_stack (Suc frames) (Node i n t c cs) depth maxDepth =
     (if depth > maxDepth then Some None
      else
        (let node = Node i n t c cs;
             name = (if n = [] then ''Unnamed'' else n);
             componentType =
               (if t = ''TEXT'' then Some CText
                else if isIcon node then Some CIcon
                else if isButton node then Some CButton
                else if t = ''FRAME'' \<or> t = ''GROUP'' then Some CContainer
                else if t = ''INSTANCE'' then Some CInstance
                else None);
             textContent = (if t = ''TEXT'' then substring0 50 c else []);
             iconName = (if componentType = Some CIcon then n else []);
             instanceName = (if componentType = Some CInstance then n else [])
         in case those (map (\<lambda>child. extractDetailedHierarchy_on_stack frames child (depth + 1)
                                         maxDepth) cs) of
              None \<Rightarrow> None
            | Some results \<Rightarrow>
                Some (Some (Structure t name i depth componentType textContent iconName
                              instanceName (map the (filter (\<lambda>r. r \<noteq> None) results))))))"

section \<open>The batched matcher\<close>

text \<open>
  An entry of \<open>comparisonQueue\<close>. \<open>p_resolve\<close> stands for the \<open>resolve\<close> callback of the
  promise that \<open>areComponentsSimilar\<close> returned: the number of the call it belongs to.
\<close>

record pending =
  p_id :: string
  p_c1 :: group
  p_c2 :: group
  p_resolve :: nat

text \<open>
  What one \<open>axios.post\<close> comes to: a response whose \<open>data.response\<close> is a string
  (\<open>HttpOk (Some text)\<close>) or is not one (\<open>HttpOk None\<close>, on which \<open>split\<close> throws), or an
  error with the status of \<open>err.response\<close>, if any.
\<close>

datatype http_result = HttpOk "string option" | HttpError "nat option"

text \<open>
  The environment of one \<open>batchStructuralMatch\<close>: the outcome of the first request, whether
  \<open>execSync('node refresh-token.js')\<close> returns, and the outcome of the second request.
\<close>

record oracle_env =
  o_first :: http_result
  o_refresh :: bool
  o_second :: http_result

datatype oracle_error = RequestFailed | RefreshFailed | BadResponse

definition isDigit :: "char \<Rightarrow> bool" where
  "isDigit c = (c \<in> set ''0123456789'')"

text \<open>\<open>Number(s)\<close> for a string of decimal digits.\<close>

definition digit_value :: "char \<Rightarrow> nat" where
  "digit_value c = (case map_of (zip ''0123456789'' [0, 1, 2, 3, 4, 5, 6, 7, 8, 9]) c of
                      Some d \<Rightarrow> d | None \<Rightarrow> 0)"

definition read_nat :: "string \<Rightarrow> nat" where
  "read_nat s = fold (\<lambda>c n. 10 * n + digit_value c) s 0"

text \<open>
  \<open>line.match(/(\d+):([YN])/i)\<close>: the leftmost match. At a position the digits are taken
  greedily; a shorter run of digits is followed by a digit, not by the colon, so
  backtracking finds nothing more there.
\<close>

definition match_here :: "string \<Rightarrow> (string \<times> char) option" where
  "match_here s =
     (let ds = takeWhile isDigit s;
          rest = dropWhile isDigit s
      in case rest of
           c # v # _ \<Rightarrow>
             (if ds \<noteq> [] \<and> c = CHR '':'' \<and> v \<in> set ''YNyn'' then Some (ds, v) else None)
         | _ \<Rightarrow> None)"

fun match_verdict :: "string \<Rightarrow> (string \<times> char) option" where
  "match_verdict [] = None"
| "match_verdict (c # cs) =
     (case match_here (c # cs) of Some m \<Rightarrow> Some m | None \<Rightarrow> match_verdict cs)"

text \<open>\<open>s.split('\n')\<close>.\<close>

fun split_lines :: "string \<Rightarrow> string list" where
  "split_lines [] = [[]]"
| "split_lines (c # cs) =
     (if c = CHR 0x0A then [] # split_lines cs
      else (c # hd (split_lines cs)) # tl (split_lines cs))"

text \<open>
  The body of \<open>lines.forEach\<close>. \<open>pairs[idx]\<close> with \<open>idx = Number(match[1]) - 1\<close> is defined
  for \<open>1 \<le> Number(match[1]) \<le> pairs.length\<close> only.
\<close>

definition parseLine :: "pending list \<Rightarrow> string \<Rightarrow> (string \<rightharpoonup> bool) \<Rightarrow> (string \<rightharpoonup> bool)" where
  "parseLine pairs line resultMap =
     (case match_verdict line of
        None \<Rightarrow> resultMap
      | Some (ds, v) \<Rightarrow>
          (let n = read_nat ds;
               val = (toUpperCase_char v = CHR ''Y'')
           in if 1 \<le> n \<and> n \<le> length pairs
              then resultMap(p_id (pairs ! (n - 1)) \<mapsto> val)
              else resultMap))"

definition parseResponse :: "pending list \<Rightarrow> string \<Rightarrow> (string \<rightharpoonup> bool)" where
  "parseResponse pairs response = fold (parseLine pairs) (split_lines response) Map.empty"

text \<open>
  The token that a request of \<open>batchStructuralMatch\<close> carries: the one that
  \<open>process.env.CATALYST_ACCESS_TOKEN\<close> holds when the function starts, or the one it holds
  after \<open>refresh-token.js\<close> has run.
\<close>

datatype token = InitialToken | RefreshedToken

text \<open>
  One \<open>axios.post\<close> to the oracle: the prompt, \<open>max_tokens\<close> and the bearer token of its
  headers. The address, the model, the system prompt, the temperature and the other
  headers are the same in every request.
\<close>

record request =
  rq_prompt :: string
  rq_max_tokens :: nat
  rq_token :: token

text \<open>The line of the prompt for the pair at index \<open>i\<close>, the arrow function of \<open>pairs.map\<close>.\<close>

definition pairLine :: "nat \<Rightarrow> pending \<Rightarrow> string" where
  "pairLine i p =
     show_nat (i + 1) @ '') C1=n:'' @ g_name (p_c1 p) @
     ''|t:'' @ show_nat (r_text (g_recipe (p_c1 p))) @
     ''|b:'' @ show_nat (r_buttons (g_recipe (p_c1 p))) @ ''  '' @
     ''C2=n:'' @ g_name (p_c2 p) @
     ''|t:'' @ show_nat (r_text (g_recipe (p_c2 p))) @
     ''|b:'' @ show_nat (r_buttons (g_recipe (p_c2 p)))"

text \<open>The template literal of the prompt, line by line, and its \<open>trim()\<close>.\<close>

definition prompt :: "pending list \<Rightarrow> string" where
  "prompt pairs =
     trim (join [CHR 0x0A]
       [[],
        ''You are a UI component matcher.'',
        [],
        ''Rules:'',
        ''- Ignore dynamic text (price, count, miles, distances).'',
        ''- Match semantic role + structure.'',
        ''- Same meaning + same structure = Y'',
        ''- Otherwise = N'',
        [],
        ''Input:'',
        join [CHR 0x0A] (map (\<lambda>(i, p). pairLine i p) (enumerate 0 pairs)),
        [],
        ''Output format:'',
        ''<index>:Y or <index>:N'',
        []])"

text \<open>\<open>callAI(token)\<close>: the request it posts.\<close>

definition callAI :: "pending list \<Rightarrow> token \<Rightarrow> request" where
  "callAI pairs tok =
     \<lparr>rq_prompt = prompt pairs, rq_max_tokens = length pairs * 5, rq_token = tok\<rparr>"

text \<open>
  The \<open>try\<close> block around \<open>callAI\<close>: the first request; on a 401 the token refresh and
  the second request; any other error, a failing refresh and a failing second request are
  thrown to the caller. The result is the requests posted, in order, with what the block
  comes to: \<open>Inr body\<close> is \<open>response.data.response\<close>.
\<close>

definition callAI_with_refresh ::
  "pending list \<Rightarrow> oracle_env \<Rightarrow> request list \<times> (oracle_error + string option)" where
  "callAI_with_refresh pairs env =
     (case o_first env of
        HttpOk body \<Rightarrow> ([callAI pairs InitialToken], Inr body)
      | HttpError status \<Rightarrow>
          (if status = Some 401 then
             (if o_refresh env then
                (case o_second env of
                   HttpOk body \<Rightarrow>
                     ([callAI pairs InitialToken, callAI pairs RefreshedToken], Inr body)
                 | HttpError status2 \<Rightarrow>
                     ([callAI pairs InitialToken, callAI pairs RefreshedToken],
                      Inl RequestFailed))
              else ([callAI pairs InitialToken], Inl RefreshFailed))
           else ([callAI pairs InitialToken], Inl RequestFailed)))"

text \<open>
  \<open>batchStructuralMatch(pairs)\<close>: the requests it posts and what it returns or throws.
\<close>

definition batchStructuralMatch ::
  "pending list \<Rightarrow> oracle_env \<Rightarrow> request list \<times> (oracle_error + (string \<rightharpoonup> bool))" where
  "batchStructuralMatch pairs env =
     (if length pairs = 0 then ([], Inr Map.empty)
      else
        (fst (callAI_with_refresh pairs env),
         (case snd (callAI_with_refresh pairs env) of
            Inl e \<Rightarrow> Inl e
          | Inr None \<Rightarrow> Inl BadResponse
          | Inr (Some text) \<Rightarrow> Inr (parseResponse pairs text))))"

text \<open>
  The matcher's module state: \<open>comparisonQueue\<close> and \<open>flushTimer\<close> (\<open>True\<close> while a timer is
  set). Four more fields record what the module did: the batches handed to
  \<open>batchStructuralMatch\<close> whose return is awaited, every batch handed to it so far, every
  request posted to the oracle so far, and every promise resolved so far with its verdict.
\<close>

record matcher =
  comparisonQueue :: "pending list"
  flushTimer :: bool
  awaiting :: "pending list list"
  batches :: "pending list list"
  posts :: "request list"
  resolved :: "(nat \<times> bool) list"

definition idle :: matcher where
  "idle = \<lparr>comparisonQueue = [], flushTimer = False, awaiting = [], batches = [],
           posts = [], resolved = []\<rparr>"

text \<open>
  \<open>areComponentsSimilar(group1, group2)\<close>, the executor of the promise; \<open>caller\<close> names the
  promise. The two fast paths resolve it at once; the third pushes the pair and sets the
  timer unless one is set.
\<close>

definition areComponentsSimilar :: "group \<Rightarrow> group \<Rightarrow> nat \<Rightarrow> matcher \<Rightarrow> matcher" where
  "areComponentsSimilar group1 group2 caller m =
     (if r_text (g_recipe group1) \<noteq> r_text (g_recipe group2) \<or>
         r_buttons (g_recipe group1) \<noteq> r_buttons (g_recipe group2)
      then m\<lparr>resolved := resolved m @ [(caller, False)]\<rparr>
      else if g_name group1 = g_name group2 \<and> g_signature group1 = g_signature group2
      then m\<lparr>resolved := resolved m @ [(caller, True)]\<rparr>
      else
        (let id = g_name group1 @ ''__'' @ g_name group2;
             m1 = m\<lparr>comparisonQueue := comparisonQueue m @
                      [\<lparr>p_id = id, p_c1 = group1, p_c2 = group2, p_resolve = caller\<rparr>]\<rparr>
         in if \<not> flushTimer m1 then m1\<lparr>flushTimer := True\<rparr> else m1))"

text \<open>
  The timer's callback up to its \<open>await\<close>: the queue is emptied into \<open>batch\<close>, the timer is
  cleared and \<open>batchStructuralMatch(batch)\<close> is called, which runs up to its own first
  \<open>await\<close>: unless the batch is empty, it posts its first request. The callback runs only
  when a timer is set.
\<close>

definition timerFires :: "matcher \<Rightarrow> matcher" where
  "timerFires m =
     (if flushTimer m then
        (let batch = comparisonQueue m
         in m\<lparr>comparisonQueue := [], flushTimer := False,
              awaiting := awaiting m @ [batch], batches := batches m @ [batch],
              posts := posts m @ (if length batch = 0 then [] else [callAI batch InitialToken])\<rparr>)
      else m)"

text \<open>The rest of the callback: what each promise of the batch is resolved with.\<close>

definition settle :: "pending list \<Rightarrow> oracle_env \<Rightarrow> (nat \<times> bool) list" where
  "settle batch env =
     (case snd (batchStructuralMatch batch env) of
        Inr results \<Rightarrow>
          map (\<lambda>item. (p_resolve item,
                        (case results (p_id item) of Some v \<Rightarrow> v | None \<Rightarrow> False))) batch
      | Inl err \<Rightarrow>
          map (\<lambda>item. (p_resolve item,
                        toLowerCase (g_name (p_c1 item)) = toLowerCase (g_name (p_c2 item))))
            batch)"

text \<open>
  \<open>batchStructuralMatch\<close> goes on for the \<open>j\<close>-th awaited batch, in the environment it meets:
  it posts what it posts after its first request and returns or throws, and the callback
  resolves the promises of the batch.
\<close>

definition batchReturns :: "nat \<Rightarrow> oracle_env \<Rightarrow> matcher \<Rightarrow> matcher" where
  "batchReturns j env m =
     (if j < length (awaiting m)
      then m\<lparr>awaiting := take j (awaiting m) @ drop (Suc j) (awaiting m),
             posts := posts m @ drop 1 (fst (batchStructuralMatch (awaiting m ! j) env)),
             resolved := resolved m @ settle (awaiting m ! j) env\<rparr>
      else m)"

text \<open>
  The event loop runs one task at a time to its end: a call of \<open>areComponentsSimilar\<close>, the
  timer's callback, or its continuation after the \<open>await\<close>.
\<close>

datatype event = Call group group nat | TimerFires | BatchReturns nat oracle_env

fun step :: "event \<Rightarrow> matcher \<Rightarrow> matcher" where
  "step (Call group1 group2 caller) m = areComponentsSimilar group1 group2 caller m"
| "step TimerFires m = timerFires m"
| "step (BatchReturns j env) m = batchReturns j env m"

definition run :: "event list \<Rightarrow> matcher \<Rightarrow> matcher" where
  "run events m = fold step events m"

section \<open>Example documents\<close>

text \<open>A list of two flight cards, each a frame with two texts.\<close>

definition flight_list :: node where
  "flight_list =
     Node ''1:1'' ''Flight List'' ''FRAME'' []
       [Node ''1:2'' ''Flight Card'' ''FRAME'' []
          [Node ''1:3'' ''Route'' ''TEXT'' ''NYC - LAX'' [],
           Node ''1:4'' ''Price'' ''TEXT'' ''$120'' []],
        Node ''1:5'' ''Flight Card'' ''FRAME'' []
          [Node ''1:6'' ''Route'' ''TEXT'' ''SFO - SEA'' [],
           Node ''1:7'' ''Price'' ''TEXT'' ''$80'' []]]"

text \<open>
  The search widget of the three platforms: a bar with a text and a button on Android, a
  lone icon instance on iOS, an input frame with a text and a glyph on the Web.
\<close>

definition search_android :: node where
  "search_android =
     Node ''2:1'' ''Search Bar'' ''FRAME'' []
       [Node ''2:2'' ''Placeholder'' ''TEXT'' ''Search flights...'' [],
        Node ''2:3'' ''Go Button'' ''RECTANGLE'' [] []]"

definition search_ios :: node where
  "search_ios = Node ''3:1'' ''Search Icon'' ''INSTANCE'' [] []"

definition search_web :: node where
  "search_web =
     Node ''4:1'' ''Search Input'' ''FRAME'' []
       [Node ''4:2'' ''Placeholder'' ''TEXT'' ''Search'' [],
        Node ''4:3'' ''Glyph'' ''VECTOR'' [] []]"

section \<open>Notions and further examples of the verification\<close>

text \<open>
  The identity map after some groups of each platform have been tracked: its keys are
  the identities of these groups, each once, and every entry counts the occurrences of
  its key per platform.
\<close>

definition ids_ok :: "identities \<Rightarrow> group list \<Rightarrow> group list \<Rightarrow> group list \<Rightarrow> bool" where
  "ids_ok ids ga gi gw \<longleftrightarrow>
     distinct (map fst ids) \<and>
     set (map fst ids) = getIdentity ` set (ga @ gi @ gw) \<and>
     (\<forall>(k, d) \<in> set ids.
        i_counts d = \<lparr>c_Android = occurrences ga k, c_iOS = occurrences gi k,
                      c_Web = occurrences gw k\<rparr>)"

text \<open>The nodes of a tree, each before its children, children in order.\<close>

fun preorder :: "node \<Rightarrow> node list" where
  "preorder (Node i n t c cs) = Node i n t c cs # concat (map preorder cs)"

text \<open>Whether \<open>extractFeatures\<close> tracks a node as a group, and the group it builds.\<close>

definition tracked :: "node \<Rightarrow> bool" where
  "tracked node \<longleftrightarrow>
     ntype node \<in> set containerTypes \<and>
     (length (nchildren node) > 1 \<or> ntype node = ''COMPONENT'' \<or> ntype node = ''INSTANCE'')"

definition group_of :: "node \<Rightarrow> group" where
  "group_of node =
     \<lparr>g_name = (if nname node = [] then ''Unnamed Group'' else nname node),
      g_id = nid node,
      g_type = ntype node,
      g_recipe = \<lparr>r_text = length (filter (\<lambda>c. ntype c = ''TEXT'') (nchildren node)),
                  r_buttons = length (filter buttonNamed (nchildren node)),
                  r_total = length (nchildren node)\<rparr>,
      g_signature = signature_of (length (filter (\<lambda>c. ntype c = ''TEXT'') (nchildren node)))
                      (length (filter buttonNamed (nchildren node))),
      g_semanticKeywords = extractSemanticKeywords (nname node)\<rparr>"

text \<open>A banner whose two direct children are texts with button-like names.\<close>

definition promo_banner :: node where
  "promo_banner =
     Node ''5:1'' ''Promo Banner'' ''FRAME'' []
       [Node ''5:2'' ''CTA Label'' ''TEXT'' ''Book now'' [],
        Node ''5:3'' ''Button Caption'' ''TEXT'' ''Only today'' []]"

text \<open>The login button: a frame with the one text "Sign In".\<close>

definition login_button :: node where
  "login_button =
     Node ''6:1'' ''Login Button'' ''FRAME'' []
       [Node ''6:2'' ''Sign In'' ''TEXT'' ''Sign In'' []]"

text \<open>
  A structural group as the data model has it: its signature is the one built from the
  text and button counts of its recipe. Every group that \<open>extractFeatures\<close> produces is one.
\<close>

definition structuralGroup :: "group \<Rightarrow> bool" where
  "structuralGroup g \<longleftrightarrow>
     g_signature g = signature_of (r_text (g_recipe g)) (r_buttons (g_recipe g))"

text \<open>
  Two groups named alike with the same signature, the second with a recipe that is not
  the one of its signature.
\<close>

definition tile_a :: group where
  "tile_a =
     \<lparr>g_name = ''Tile'', g_id = ''10:1'', g_type = ''FRAME'',
      g_recipe = \<lparr>r_text = 1, r_buttons = 0, r_total = 2\<rparr>,
      g_signature = ''T1B0'', g_semanticKeywords = []\<rparr>"

definition tile_b :: group where
  "tile_b =
     \<lparr>g_name = ''Tile'', g_id = ''10:2'', g_type = ''FRAME'',
      g_recipe = \<lparr>r_text = 2, r_buttons = 0, r_total = 2\<rparr>,
      g_signature = ''T1B0'', g_semanticKeywords = []\<rparr>"

text \<open>The empty sets with which flat extraction starts.\<close>

definition no_flat_features :: flat_features where
  "no_flat_features = \<lparr>fl_text = [], fl_buttons = [], fl_all = []\<rparr>"



text \<open>The tree cut below the given number of levels under its root.\<close>

fun truncate :: "nat \<Rightarrow> node \<Rightarrow> node" where
  "truncate d (Node i n t c cs) =
     Node i n t c (if d = 0 then [] else map (truncate (d - 1)) cs)"

text \<open>The nodes of a structure, each before its children.\<close>

fun s_preorder :: "structure \<Rightarrow> structure list" where
  "s_preorder (Structure t n i d ct tc icn inn cs) =
     Structure t n i d ct tc icn inn cs # concat (map s_preorder cs)"

text \<open>A leaf under the given number of frames, each the only child of the one above.\<close>

fun nested :: "nat \<Rightarrow> node \<Rightarrow> node" where
  "nested 0 leaf = leaf"
| "nested (Suc k) leaf = Node ''9:0'' ''Frame'' ''FRAME'' [] [nested k leaf]"

definition deep_label :: node where
  "deep_label = Node ''9:1'' ''Deep label'' ''TEXT'' ''Deep'' []"

text \<open>The number of levels of a tree: one for a leaf.\<close>

fun levels :: "node \<Rightarrow> nat" where
  "levels (Node i n t c cs) = Suc (fold max (map levels cs) 0)"

text \<open>
  The text that \<open>batchStructuralMatch\<close> gets from the oracle, if it gets one: the
  \<open>response.data.response\<close> of the first request or, after a 401 and a refresh of the
  token, of the second, when it is a string.
\<close>

definition answer_text :: "oracle_env \<Rightarrow> string option" where
  "answer_text env =
     (if o_first env = HttpError (Some 401) \<and> o_refresh env
      then (case o_second env of HttpOk body \<Rightarrow> body | HttpError status \<Rightarrow> None)
      else (case o_first env of HttpOk body \<Rightarrow> body | HttpError status \<Rightarrow> None))"

text \<open>
  A verdict line is a line in which the pattern, digits, a colon and one of the letters Y
  and N in either case, occurs; its number and its letter are those of the leftmost
  occurrence. The line gives a verdict to the id \<open>k\<close> when its number is between 1 and the
  length of the batch and the pair at this number has the id \<open>k\<close>; it says yes when its
  letter is Y or y.
\<close>

definition line_verdict_for :: "pending list \<Rightarrow> string \<Rightarrow> string \<Rightarrow> bool" where
  "line_verdict_for pairs k line =
     (case match_verdict line of
        None \<Rightarrow> False
      | Some (ds, v) \<Rightarrow>
          1 \<le> read_nat ds \<and> read_nat ds \<le> length pairs \<and> p_id (pairs ! (read_nat ds - 1)) = k)"

definition line_says_yes :: "string \<Rightarrow> bool" where
  "line_says_yes line =
     (case match_verdict line of
        None \<Rightarrow> False
      | Some (ds, v) \<Rightarrow> v = CHR ''Y'' \<or> v = CHR ''y'')"

text \<open>The verdicts that the lines of a response give to an id, in the order of the lines.\<close>

definition verdicts_for :: "pending list \<Rightarrow> string \<Rightarrow> string \<Rightarrow> bool list" where
  "verdicts_for pairs text k =
     map line_says_yes (filter (line_verdict_for pairs k) (split_lines text))"

text \<open>The verdicts of the lines of a response that have the number \<open>n\<close>, in their order.\<close>

definition line_number_is :: "nat \<Rightarrow> string \<Rightarrow> bool" where
  "line_number_is n line =
     (case match_verdict line of None \<Rightarrow> False | Some (ds, v) \<Rightarrow> read_nat ds = n)"

definition verdicts_numbered :: "nat \<Rightarrow> string \<Rightarrow> bool list" where
  "verdicts_numbered n text = map line_says_yes (filter (line_number_is n) (split_lines text))"

text \<open>The fallback of the timer's callback: the two names are equal in lower case.\<close>

definition sameNameIgnoringCase :: "pending \<Rightarrow> bool" where
  "sameNameIgnoringCase item \<longleftrightarrow>
     toLowerCase (g_name (p_c1 item)) = toLowerCase (g_name (p_c2 item))"

text \<open>Another search input, with the recipe of the Web's and a different name.\<close>

definition search_field :: node where
  "search_field =
     Node ''4:5'' ''Search Field'' ''FRAME'' []
       [Node ''4:6'' ''Hint'' ''TEXT'' ''Find a flight'' [],
        Node ''4:7'' ''Lens'' ''VECTOR'' [] []]"

definition search_box :: node where
  "search_box =
     Node ''4:8'' ''Search Box'' ''FRAME'' []
       [Node ''4:9'' ''Hint'' ''TEXT'' ''Where to?'' [],
        Node ''4:10'' ''Lens'' ''VECTOR'' [] []]"

text \<open>The queue after two calls on pairs of different names, and after the same call twice.\<close>

definition two_pairs :: "pending list" where
  "two_pairs =
     comparisonQueue
       (run [Call (group_of search_web) (group_of search_field) 0,
             Call (group_of search_web) (group_of search_box) 1] idle)"

definition same_pair_twice :: "pending list" where
  "same_pair_twice =
     comparisonQueue
       (run [Call (group_of search_web) (group_of search_field) 0,
             Call (group_of search_web) (group_of search_field) 1] idle)"

text \<open>An oracle that answers with the text, and one whose token stays refused.\<close>

definition answering :: "string \<Rightarrow> oracle_env" where
  "answering text = \<lparr>o_first = HttpOk (Some text), o_refresh = True, o_second = HttpError None\<rparr>"

definition refusing :: oracle_env where
  "refusing = \<lparr>o_first = HttpError (Some 401), o_refresh = True, o_second = HttpError (Some 401)\<rparr>"

text \<open>
  An oracle whose response holds no text, and one that refuses the first token and answers
  the refreshed one with the text.
\<close>

definition wordless :: oracle_env where
  "wordless = \<lparr>o_first = HttpOk None, o_refresh = True, o_second = HttpError None\<rparr>"

definition expired :: "string \<Rightarrow> oracle_env" where
  "expired text =
     \<lparr>o_first = HttpError (Some 401), o_refresh = True, o_second = HttpOk (Some text)\<rparr>"

text \<open>The requests that one batch posts: the first and, after a 401 and a refresh, the second.\<close>

definition posts_of :: "pending list \<Rightarrow> oracle_env \<Rightarrow> request list" where
  "posts_of batch env =
     callAI batch InitialToken #
     (if o_first env = HttpError (Some 401) \<and> o_refresh env
      then [callAI batch RefreshedToken] else [])"

text \<open>
  A pair that neither fast path decides, and the queue entry \<open>areComponentsSimilar\<close> makes of
  a call; a call is the two groups and the number of its promise.
\<close>

definition ambiguous :: "group \<Rightarrow> group \<Rightarrow> bool" where
  "ambiguous a b \<longleftrightarrow>
     r_text (g_recipe a) = r_text (g_recipe b) \<and>
     r_buttons (g_recipe a) = r_buttons (g_recipe b) \<and>
     \<not> (g_name a = g_name b \<and> g_signature a = g_signature b)"

definition pending_of :: "group \<times> group \<times> nat \<Rightarrow> pending" where
  "pending_of call =
     \<lparr>p_id = g_name (fst call) @ ''__'' @ g_name (fst (snd call)),
      p_c1 = fst call, p_c2 = fst (snd call), p_resolve = snd (snd call)\<rparr>"

definition calls_of :: "(group \<times> group \<times> nat) list \<Rightarrow> event list" where
  "calls_of calls = map (\<lambda>call. Call (fst call) (fst (snd call)) (snd (snd call))) calls"

text \<open>Two calls within one window, as \<open>two_pairs\<close> has them.\<close>

definition two_calls :: "(group \<times> group \<times> nat) list" where
  "two_calls =
     [(group_of search_web, group_of search_field, 0),
      (group_of search_web, group_of search_box, 1)]"

text \<open>The queue entries that a sequence of events makes, in order.\<close>

fun queued_of :: "event \<Rightarrow> pending list" where
  "queued_of (Call a b k) = (if ambiguous a b then [pending_of (a, b, k)] else [])"
| "queued_of TimerFires = []"
| "queued_of (BatchReturns j env) = []"

section \<open>The reconciler's totals\<close>

lemma occurrences_snoc:
  "occurrences (gs @ [g]) k = occurrences gs k + (if getIdentity g = k then 1 else 0)"
  by (simp add: occurrences_def)

lemma occurrences_zero: "k \<notin> getIdentity ` set gs \<Longrightarrow> occurrences gs k = 0"
  by (auto simp: occurrences_def filter_empty_conv)

lemma occurrences_pos: "k \<in> getIdentity ` set gs \<Longrightarrow> 0 < occurrences gs k"
  by (auto simp: occurrences_def filter_empty_conv)

lemma map_fst_trackIdentity:
  "map fst (trackIdentity p g ids) =
     (if getIdentity g \<in> fst ` set ids then map fst ids else map fst ids @ [getIdentity g])"
  by (auto simp: trackIdentity_def Let_def case_prod_beta comp_def intro!: map_cong)

lemma trackIdentity_Android:
  assumes "ids_ok ids ga gi gw"
  shows "ids_ok (trackIdentity Android g ids) (ga @ [g]) gi gw"
  using assms unfolding ids_ok_def
  apply (intro conjI)
    apply (simp add: map_fst_trackIdentity)
   apply (auto simp add: map_fst_trackIdentity)[1]
  apply (auto simp: trackIdentity_def Let_def occurrences_snoc occurrences_zero image_Un
              split: if_splits)
  done

lemma trackIdentity_iOS:
  assumes "ids_ok ids ga gi gw"
  shows "ids_ok (trackIdentity iOS g ids) ga (gi @ [g]) gw"
  using assms unfolding ids_ok_def
  apply (intro conjI)
    apply (simp add: map_fst_trackIdentity)
   apply (auto simp add: map_fst_trackIdentity)[1]
  apply (auto simp: trackIdentity_def Let_def occurrences_snoc occurrences_zero image_Un
              split: if_splits)
  done

lemma trackIdentity_Web:
  assumes "ids_ok ids ga gi gw"
  shows "ids_ok (trackIdentity Web g ids) ga gi (gw @ [g])"
  using assms unfolding ids_ok_def
  apply (intro conjI)
    apply (simp add: map_fst_trackIdentity)
   apply (auto simp add: map_fst_trackIdentity)[1]
  apply (auto simp: trackIdentity_def Let_def occurrences_snoc occurrences_zero image_Un
              split: if_splits)
  done

lemma fold_trackIdentity_Android:
  "ids_ok ids ga gi gw \<Longrightarrow> ids_ok (fold (trackIdentity Android) gs ids) (ga @ gs) gi gw"
proof (induction gs arbitrary: ids ga)
  case Nil
  then show ?case by simp
next
  case (Cons g gs)
  from Cons.IH [OF trackIdentity_Android [OF Cons.prems, of g]] show ?case by simp
qed

lemma fold_trackIdentity_iOS:
  "ids_ok ids ga gi gw \<Longrightarrow> ids_ok (fold (trackIdentity iOS) gs ids) ga (gi @ gs) gw"
proof (induction gs arbitrary: ids gi)
  case Nil
  then show ?case by simp
next
  case (Cons g gs)
  from Cons.IH [OF trackIdentity_iOS [OF Cons.prems, of g]] show ?case by simp
qed

lemma fold_trackIdentity_Web:
  "ids_ok ids ga gi gw \<Longrightarrow> ids_ok (fold (trackIdentity Web) gs ids) ga gi (gw @ gs)"
proof (induction gs arbitrary: ids gw)
  case Nil
  then show ?case by simp
next
  case (Cons g gs)
  from Cons.IH [OF trackIdentity_Web [OF Cons.prems, of g]] show ?case by simp
qed

lemma allIdentities_ok:
  "ids_ok (allIdentities fa fi fw) (f_groups fa) (f_groups fi) (f_groups fw)"
proof -
  have "ids_ok [] [] [] []" by (simp add: ids_ok_def)
  from fold_trackIdentity_Web [OF fold_trackIdentity_iOS [OF fold_trackIdentity_Android [OF this]]]
  show ?thesis by (simp add: allIdentities_def)
qed

text \<open>
  One identity adds the largest of its three counts to the two counters together: to
  \<open>consistent\<close> when the counts are equal and positive or a semantic equivalent is found,
  to \<open>inconsistent\<close> otherwise.
\<close>

lemma compareIdentity_total:
  "consistent (compareIdentity fa fi fw kd res) + inconsistent (compareIdentity fa fi fw kd res) =
     consistent res + inconsistent res +
     max3 (c_Android (i_counts (snd kd))) (c_iOS (i_counts (snd kd))) (c_Web (i_counts (snd kd)))"
  by (simp add: compareIdentity_def Let_def max3_def)

lemma fold_compareIdentity_total:
  "consistent (fold (compareIdentity fa fi fw) ids res) +
   inconsistent (fold (compareIdentity fa fi fw) ids res) =
     consistent res + inconsistent res +
     sum_list (map (\<lambda>kd. max3 (c_Android (i_counts (snd kd))) (c_iOS (i_counts (snd kd)))
                              (c_Web (i_counts (snd kd)))) ids)"
  by (induction ids arbitrary: res) (simp_all add: compareIdentity_total)

lemma compareFeatures_total:
  "consistent (compareFeatures fa fi fw) + inconsistent (compareFeatures fa fi fw) =
     (\<Sum>k \<in> getIdentity ` set (f_groups fa @ f_groups fi @ f_groups fw).
        max3 (occurrences (f_groups fa) k) (occurrences (f_groups fi) k)
             (occurrences (f_groups fw) k))"
proof -
  let ?ids = "allIdentities fa fi fw"
  let ?F = "\<lambda>kd. max3 (c_Android (i_counts (snd kd))) (c_iOS (i_counts (snd kd)))
                              (c_Web (i_counts (snd kd)))"
  let ?M = "\<lambda>k. max3 (occurrences (f_groups fa) k) (occurrences (f_groups fi) k)
             (occurrences (f_groups fw) k)"
  have ok: "ids_ok ?ids (f_groups fa) (f_groups fi) (f_groups fw)" by (rule allIdentities_ok)
  have m1: "map ?F ?ids = map ?M (map fst ?ids)"
    using ok by (auto simp: ids_ok_def)
  have m2: "set (map fst ?ids) = getIdentity ` set (f_groups fa @ f_groups fi @ f_groups fw)"
    using ok by (simp add: ids_ok_def)
  have "consistent (compareFeatures fa fi fw) + inconsistent (compareFeatures fa fi fw) =
          sum_list (map ?F ?ids)"
    by (simp add: compareFeatures_def fold_compareIdentity_total)
  also have "\<dots> = sum_list (map ?M (map fst ?ids))"
    by (simp only: m1)
  also have "\<dots> = sum ?M (set (map fst ?ids))"
    using ok by (intro sum_list_distinct_conv_sum_set) (simp add: ids_ok_def)
  also have "\<dots> = sum ?M (getIdentity ` set (f_groups fa @ f_groups fi @ f_groups fw))"
    by (simp only: m2)
  finally show ?thesis .
qed

lemma max3_one:
  "a \<le> 1 \<Longrightarrow> i \<le> 1 \<Longrightarrow> w \<le> 1 \<Longrightarrow> 0 < a \<or> 0 < i \<or> 0 < w \<Longrightarrow> max3 a i w = 1"
  by (auto simp: max3_def max_def)

lemma occurrences_distinct:
  "distinct (map getIdentity gs) \<Longrightarrow> occurrences gs k \<le> 1"
proof (induction gs)
  case Nil
  then show ?case by (simp add: occurrences_def)
next
  case (Cons g gs)
  show ?case
  proof (cases "getIdentity g = k")
    case True
    with Cons.prems have "k \<notin> getIdentity ` set gs" by auto
    then have "occurrences gs k = 0" by (rule occurrences_zero)
    with True show ?thesis by (simp add: occurrences_def)
  next
    case False
    with Cons show ?thesis by (simp add: occurrences_def)
  qed
qed

lemma compareFeatures_total_distinct:
  assumes "distinct (map getIdentity (f_groups fa))"
    and "distinct (map getIdentity (f_groups fi))"
    and "distinct (map getIdentity (f_groups fw))"
  shows "consistent (compareFeatures fa fi fw) + inconsistent (compareFeatures fa fi fw) =
    card (getIdentity ` set (f_groups fa @ f_groups fi @ f_groups fw))"
proof -
  have "max3 (occurrences (f_groups fa) k) (occurrences (f_groups fi) k)
             (occurrences (f_groups fw) k) = 1"
    if "k \<in> getIdentity ` set (f_groups fa @ f_groups fi @ f_groups fw)" for k
  proof (rule max3_one)
    from that have "k \<in> getIdentity ` set (f_groups fa) \<or> k \<in> getIdentity ` set (f_groups fi) \<or>
                    k \<in> getIdentity ` set (f_groups fw)"
      by auto
    then show "0 < occurrences (f_groups fa) k \<or> 0 < occurrences (f_groups fi) k \<or>
               0 < occurrences (f_groups fw) k"
      by (elim disjE) (simp_all add: occurrences_pos)
  qed (rule occurrences_distinct, rule assms)+
  then show ?thesis by (simp add: compareFeatures_total del: set_append)
qed

text \<open>
  C1, as the code has it. The two counters count instances, not identities: together they
  hold, summed over the distinct identities of the three lists, the largest of the
  identity's three per-platform occurrence counts (for a consistent identity the three
  are equal). An identity rescued by a semantic equivalent moves its amount from
  \<open>inconsistent\<close> to \<open>consistent\<close>, which leaves the sum as it is. The sum is the number of
  distinct identities when no platform holds two groups of the same identity.
\<close>

theorem reconciler_totals:
  "consistent (compareFeatures fa fi fw) + inconsistent (compareFeatures fa fi fw) =
     (\<Sum>k \<in> getIdentity ` set (f_groups fa @ f_groups fi @ f_groups fw).
        max3 (occurrences (f_groups fa) k) (occurrences (f_groups fi) k)
             (occurrences (f_groups fw) k)) \<and>
   (distinct (map getIdentity (f_groups fa)) \<and> distinct (map getIdentity (f_groups fi)) \<and>
    distinct (map getIdentity (f_groups fw)) \<longrightarrow>
    consistent (compareFeatures fa fi fw) + inconsistent (compareFeatures fa fi fw) =
      card (getIdentity ` set (f_groups fa @ f_groups fi @ f_groups fw)))"
proof (intro conjI impI)
  show "consistent (compareFeatures fa fi fw) + inconsistent (compareFeatures fa fi fw) =
     (\<Sum>k \<in> getIdentity ` set (f_groups fa @ f_groups fi @ f_groups fw).
        max3 (occurrences (f_groups fa) k) (occurrences (f_groups fi) k)
             (occurrences (f_groups fw) k))"
    by (rule compareFeatures_total)
next
  assume d: "distinct (map getIdentity (f_groups fa)) \<and> distinct (map getIdentity (f_groups fi)) \<and>
    distinct (map getIdentity (f_groups fw))"
  show "consistent (compareFeatures fa fi fw) + inconsistent (compareFeatures fa fi fw) =
      card (getIdentity ` set (f_groups fa @ f_groups fi @ f_groups fw))"
    by (rule compareFeatures_total_distinct
          [OF conjunct1 [OF d] conjunct1 [OF conjunct2 [OF d]] conjunct2 [OF conjunct2 [OF d]]])
qed

theorem reconciler_totals_witness:
  "distinct (map getIdentity (f_groups (extractFeatures search_android no_features))) \<and>
   distinct (map getIdentity (f_groups (extractFeatures search_ios no_features))) \<and>
   distinct (map getIdentity (f_groups (extractFeatures search_web no_features))) \<and>
   consistent (compareFeatures (extractFeatures search_android no_features)
                 (extractFeatures search_ios no_features)
                 (extractFeatures search_web no_features)) +
   inconsistent (compareFeatures (extractFeatures search_android no_features)
                   (extractFeatures search_ios no_features)
                   (extractFeatures search_web no_features)) =
     card (getIdentity ` set (f_groups (extractFeatures search_android no_features) @
                              f_groups (extractFeatures search_ios no_features) @
                              f_groups (extractFeatures search_web no_features)))"
proof -
  have d: "distinct (map getIdentity (f_groups (extractFeatures search_android no_features))) \<and>
           distinct (map getIdentity (f_groups (extractFeatures search_ios no_features))) \<and>
           distinct (map getIdentity (f_groups (extractFeatures search_web no_features)))"
    by code_simp
  from reconciler_totals [of "extractFeatures search_android no_features"
      "extractFeatures search_ios no_features" "extractFeatures search_web no_features"] d
  show ?thesis by blast
qed

text \<open>
  The claim as stated fails where a platform repeats an identity: with the flight list on
  all three platforms there are two identities, "Flight List|T0B0" once and
  "Flight Card|T2B0" twice per platform, and the counters hold 3.
\<close>

theorem reconciler_totals_counterexample:
  "consistent (compareFeatures (extractFeatures flight_list no_features)
                 (extractFeatures flight_list no_features)
                 (extractFeatures flight_list no_features)) +
   inconsistent (compareFeatures (extractFeatures flight_list no_features)
                   (extractFeatures flight_list no_features)
                   (extractFeatures flight_list no_features)) = 3 \<and>
   card (getIdentity ` set (f_groups (extractFeatures flight_list no_features) @
                            f_groups (extractFeatures flight_list no_features) @
                            f_groups (extractFeatures flight_list no_features))) = 2"
  by code_simp

section \<open>The semantic rescue\<close>

text \<open>
  \<open>trackIdentity\<close> never stores semantic keywords, so \<open>findSemanticEquivalents\<close> finds an
  empty list of target keywords for every identity and returns no equivalent.
\<close>

lemma findSemanticEquivalents_no_keywords:
  "i_semanticKeywords d = None \<Longrightarrow> findSemanticEquivalents d ga gi gw = []"
  by (simp add: findSemanticEquivalents_def)

lemma trackIdentity_no_keywords:
  assumes "\<forall>kd \<in> set ids. i_semanticKeywords (snd kd) = None"
  shows "\<forall>kd \<in> set (trackIdentity p g ids). i_semanticKeywords (snd kd) = None"
  using assms by (auto simp: trackIdentity_def Let_def split: if_splits)

lemma fold_trackIdentity_no_keywords:
  "\<forall>kd \<in> set ids. i_semanticKeywords (snd kd) = None \<Longrightarrow>
   \<forall>kd \<in> set (fold (trackIdentity p) gs ids). i_semanticKeywords (snd kd) = None"
proof (induction gs arbitrary: ids)
  case Nil
  then show ?case by simp
next
  case (Cons g gs)
  from Cons.IH [OF trackIdentity_no_keywords [OF Cons.prems]] show ?case by simp
qed

lemma allIdentities_no_keywords:
  "\<forall>kd \<in> set (allIdentities fa fi fw). i_semanticKeywords (snd kd) = None"
  unfolding allIdentities_def
  by (intro fold_trackIdentity_no_keywords) simp

lemma compareIdentity_no_rescue:
  assumes "i_semanticKeywords (snd kd) = None"
    and "\<forall>e \<in> set (mapping_text res). \<forall>xs. e_details e \<noteq> AlternativeFound xs"
  shows "\<forall>e \<in> set (mapping_text (compareIdentity fa fi fw kd res)).
           \<forall>xs. e_details e \<noteq> AlternativeFound xs"
  using assms
  by (auto simp: compareIdentity_def Let_def findSemanticEquivalents_no_keywords)

lemma fold_compareIdentity_no_rescue:
  "\<forall>kd \<in> set ids. i_semanticKeywords (snd kd) = None \<Longrightarrow>
   \<forall>e \<in> set (mapping_text res). \<forall>xs. e_details e \<noteq> AlternativeFound xs \<Longrightarrow>
   \<forall>e \<in> set (mapping_text (fold (compareIdentity fa fi fw) ids res)).
      \<forall>xs. e_details e \<noteq> AlternativeFound xs"
proof (induction ids arbitrary: res)
  case Nil
  then show ?case by simp
next
  case (Cons kd ids)
  from Cons.prems(1) have k: "i_semanticKeywords (snd kd) = None"
    and rest: "\<forall>kd \<in> set ids. i_semanticKeywords (snd kd) = None"
    by simp_all
  from Cons.IH [OF rest compareIdentity_no_rescue [OF k Cons.prems(2)]]
  show ?case by simp
qed

text \<open>No input makes \<open>compareFeatures\<close> report an alternative implementation.\<close>

lemma compareFeatures_no_rescue:
  "\<forall>e \<in> set (mapping_text (compareFeatures fa fi fw)). \<forall>xs. e_details e \<noteq> AlternativeFound xs"
  unfolding compareFeatures_def
  by (rule fold_compareIdentity_no_rescue [OF allIdentities_no_keywords]) simp

text \<open>
  C2 at the search widget. The three groups have different names and all carry the
  semantic keyword "search"; each identity is absent from two platforms whose groups share
  that keyword. The code reports each of them as missing and counts it as inconsistent.
\<close>

theorem semantic_rescue_not_applied:
  "map (\<lambda>g. (getIdentity g, g_semanticKeywords g))
       (f_groups (extractFeatures search_android no_features)) =
     [(''Search Bar|T1B1'', [''search''])] \<and>
   map (\<lambda>g. (getIdentity g, g_semanticKeywords g))
       (f_groups (extractFeatures search_ios no_features)) =
     [(''Search Icon|T0B0'', [''search''])] \<and>
   map (\<lambda>g. (getIdentity g, g_semanticKeywords g))
       (f_groups (extractFeatures search_web no_features)) =
     [(''Search Input|T1B0'', [''search''])] \<and>
   map (\<lambda>e. (e_name e, e_details e))
       (mapping_text (compareFeatures (extractFeatures search_android no_features)
                        (extractFeatures search_ios no_features)
                        (extractFeatures search_web no_features))) =
     [(''Search Bar'', MissingOn [iOS, Web]),
      (''Search Icon'', MissingOn [Android, Web]),
      (''Search Input'', MissingOn [Android, iOS])] \<and>
   consistent (compareFeatures (extractFeatures search_android no_features)
                 (extractFeatures search_ios no_features)
                 (extractFeatures search_web no_features)) = 0 \<and>
   inconsistent (compareFeatures (extractFeatures search_android no_features)
                   (extractFeatures search_ios no_features)
                   (extractFeatures search_web no_features)) = 3"
  by code_simp

section \<open>The tree walk of the extractors\<close>

lemma fold_concat_map:
  assumes "\<And>c acc. c \<in> set cs \<Longrightarrow> f c acc = fold g (h c) acc"
  shows "fold f cs acc = fold g (concat (map h cs)) acc"
  using assms by (induction cs arbitrary: acc) simp_all

text \<open>
  Both extractors apply their per-node step to every node of the tree in preorder,
  whatever its depth.
\<close>

lemma extractFeatures_preorder:
  "extractFeatures node fs = fold extractFeatures_node (preorder node) fs"
proof (induction node arbitrary: fs)
  case (Node i n t c cs)
  have "fold extractFeatures cs acc = fold extractFeatures_node (concat (map preorder cs)) acc"
    for acc
    by (rule fold_concat_map) (rule Node.IH)
  then show ?case by simp
qed

lemma traverse_preorder:
  "traverse node fs = fold traverse_node (preorder node) fs"
proof (induction node arbitrary: fs)
  case (Node i n t c cs)
  have "fold traverse cs acc = fold traverse_node (concat (map preorder cs)) acc" for acc
    by (rule fold_concat_map) (rule Node.IH)
  then show ?case by (cases cs) simp_all
qed

section \<open>Structural groups and their recipes\<close>

lemma f_groups_extractFeatures_node:
  "f_groups (extractFeatures_node node fs) =
     f_groups fs @ (if tracked node then [group_of node] else [])"
  by (simp add: extractFeatures_node_def tracked_def group_of_def Let_def)

lemma f_groups_fold_extractFeatures_node:
  "f_groups (fold extractFeatures_node ns fs) = f_groups fs @ map group_of (filter tracked ns)"
  by (induction ns arbitrary: fs) (simp_all add: f_groups_extractFeatures_node)

lemma f_groups_extractFeatures:
  "f_groups (extractFeatures node fs) = f_groups fs @ map group_of (filter tracked (preorder node))"
  by (simp add: extractFeatures_preorder f_groups_fold_extractFeatures_node)

lemma filter_inclusion_exclusion:
  "length (filter P xs) + length (filter Q xs) + length (filter (\<lambda>x. \<not> P x \<and> \<not> Q x) xs) =
     length xs + length (filter (\<lambda>x. P x \<and> Q x) xs)"
  by (induction xs) auto

text \<open>
  C10. For a node that is tracked as a group, \<open>recipe.text\<close> is the number of direct
  children of type TEXT, \<open>recipe.buttons\<close> the number of direct children with a button-like
  name and \<open>recipe.total\<close> the number of direct children. A child that is both is counted
  twice: the two counts exceed the total by the number of such children, less the number
  of children that are neither. For some documents the extractor produces a group with
  \<open>text + buttons > total\<close>.
\<close>

theorem recipe_counts_overlap:
  "(ntype node \<in> set containerTypes \<and>
    (length (nchildren node) > 1 \<or> ntype node = ''COMPONENT'' \<or> ntype node = ''INSTANCE'') \<longrightarrow>
    (\<exists>g. f_groups (extractFeatures_node node fs) = f_groups fs @ [g] \<and>
         r_text (g_recipe g) = length (filter (\<lambda>c. ntype c = ''TEXT'') (nchildren node)) \<and>
         r_buttons (g_recipe g) = length (filter buttonNamed (nchildren node)) \<and>
         r_total (g_recipe g) = length (nchildren node) \<and>
         r_text (g_recipe g) + r_buttons (g_recipe g) +
           length (filter (\<lambda>c. \<not> ntype c = ''TEXT'' \<and> \<not> buttonNamed c) (nchildren node)) =
         r_total (g_recipe g) +
           length (filter (\<lambda>c. ntype c = ''TEXT'' \<and> buttonNamed c) (nchildren node)))) \<and>
   (\<exists>doc g. g \<in> set (f_groups (extractFeatures doc no_features)) \<and>
            r_total (g_recipe g) < r_text (g_recipe g) + r_buttons (g_recipe g))"
proof (intro conjI impI)
  assume "ntype node \<in> set containerTypes \<and>
    (length (nchildren node) > 1 \<or> ntype node = ''COMPONENT'' \<or> ntype node = ''INSTANCE'')"
  then have t: "tracked node" by (simp add: tracked_def)
  show "\<exists>g. f_groups (extractFeatures_node node fs) = f_groups fs @ [g] \<and>
         r_text (g_recipe g) = length (filter (\<lambda>c. ntype c = ''TEXT'') (nchildren node)) \<and>
         r_buttons (g_recipe g) = length (filter buttonNamed (nchildren node)) \<and>
         r_total (g_recipe g) = length (nchildren node) \<and>
         r_text (g_recipe g) + r_buttons (g_recipe g) +
           length (filter (\<lambda>c. \<not> ntype c = ''TEXT'' \<and> \<not> buttonNamed c) (nchildren node)) =
         r_total (g_recipe g) +
           length (filter (\<lambda>c. ntype c = ''TEXT'' \<and> buttonNamed c) (nchildren node))"
  proof (intro exI [of _ "group_of node"] conjI)
    show "f_groups (extractFeatures_node node fs) = f_groups fs @ [group_of node]"
      using t by (simp add: f_groups_extractFeatures_node)
    show "r_text (g_recipe (group_of node)) + r_buttons (g_recipe (group_of node)) +
           length (filter (\<lambda>c. \<not> ntype c = ''TEXT'' \<and> \<not> buttonNamed c) (nchildren node)) =
         r_total (g_recipe (group_of node)) +
           length (filter (\<lambda>c. ntype c = ''TEXT'' \<and> buttonNamed c) (nchildren node))"
      using filter_inclusion_exclusion [of "\<lambda>c. ntype c = ''TEXT''" "nchildren node" buttonNamed]
      by (simp add: group_of_def)
  qed (simp_all add: group_of_def)
next
  have "group_of promo_banner \<in> set (f_groups (extractFeatures promo_banner no_features))"
    by code_simp
  moreover have "r_total (g_recipe (group_of promo_banner)) <
        r_text (g_recipe (group_of promo_banner)) + r_buttons (g_recipe (group_of promo_banner))"
    by code_simp
  ultimately show "\<exists>doc g. g \<in> set (f_groups (extractFeatures doc no_features)) \<and>
            r_total (g_recipe g) < r_text (g_recipe g) + r_buttons (g_recipe g)"
    by (intro exI [of _ promo_banner] exI [of _ "group_of promo_banner"] conjI)
qed

theorem recipe_counts_overlap_witness:
  "(ntype promo_banner \<in> set containerTypes \<and>
    (length (nchildren promo_banner) > 1 \<or> ntype promo_banner = ''COMPONENT'' \<or>
     ntype promo_banner = ''INSTANCE'')) \<and>
   (\<exists>g. f_groups (extractFeatures_node promo_banner no_features) = f_groups no_features @ [g] \<and>
        r_text (g_recipe g) = length (filter (\<lambda>c. ntype c = ''TEXT'') (nchildren promo_banner)) \<and>
        r_buttons (g_recipe g) = length (filter buttonNamed (nchildren promo_banner)) \<and>
        r_total (g_recipe g) = length (nchildren promo_banner) \<and>
        r_text (g_recipe g) + r_buttons (g_recipe g) +
          length (filter (\<lambda>c. \<not> ntype c = ''TEXT'' \<and> \<not> buttonNamed c) (nchildren promo_banner)) =
        r_total (g_recipe g) +
          length (filter (\<lambda>c. ntype c = ''TEXT'' \<and> buttonNamed c) (nchildren promo_banner)))"
proof -
  have h: "ntype promo_banner \<in> set containerTypes \<and>
    (length (nchildren promo_banner) > 1 \<or> ntype promo_banner = ''COMPONENT'' \<or>
     ntype promo_banner = ''INSTANCE'')"
    by code_simp
  note t = conjunct1 [OF recipe_counts_overlap [of promo_banner no_features]]
  show ?thesis by (rule conjI [OF h mp [OF t h]])
qed

section \<open>Signatures\<close>

lemma digit_value_digit_char: "d < 10 \<Longrightarrow> digit_value (digit_char d) = d"
proof -
  assume "d < 10"
  then have "d \<in> {0, 1, 2, 3, 4, 5, 6, 7, 8, 9}" by auto
  then show ?thesis
    by (auto simp: digit_value_def digit_char_def)
qed

lemma digit_char_isDigit: "d < 10 \<Longrightarrow> digit_char d \<in> set ''0123456789''"
proof -
  assume "d < 10"
  then have "d \<in> {0, 1, 2, 3, 4, 5, 6, 7, 8, 9}" by auto
  then show ?thesis
    by (auto simp: digit_char_def)
qed

lemma read_nat_snoc: "read_nat (s @ [c]) = 10 * read_nat s + digit_value c"
  by (simp add: read_nat_def)

text \<open>The decimal digits of a number read back give the number.\<close>

lemma read_nat_show_nat: "read_nat (show_nat n) = n"
proof (induction n rule: show_nat.induct)
  case (1 n)
  show ?case
  proof (cases "n < 10")
    case True
    then show ?thesis
      by (subst show_nat.simps) (simp add: read_nat_def digit_value_digit_char)
  next
    case False
    with 1 have "read_nat (show_nat (n div 10)) = n div 10" by simp
    with False show ?thesis
      by (subst show_nat.simps) (simp add: read_nat_snoc digit_value_digit_char)
  qed
qed

lemma show_nat_digits: "set (show_nat n) \<subseteq> set ''0123456789''"
proof (induction n rule: show_nat.induct)
  case (1 n)
  show ?case
  proof (cases "n < 10")
    case True
    then show ?thesis
      using digit_char_isDigit [of n] by (subst show_nat.simps) simp
  next
    case False
    with 1 have "set (show_nat (n div 10)) \<subseteq> set ''0123456789''" by simp
    moreover have "digit_char (n mod 10) \<in> set ''0123456789''"
      by (rule digit_char_isDigit) simp
    ultimately show ?thesis
      using False by (subst show_nat.simps) simp
  qed
qed

lemma show_nat_no_B: "CHR ''B'' \<notin> set (show_nat n)"
proof
  assume "CHR ''B'' \<in> set (show_nat n)"
  then have "CHR ''B'' \<in> set ''0123456789''"
    by (rule subsetD [OF show_nat_digits])
  then show False by simp
qed

lemma show_nat_inj: "show_nat m = show_nat n \<Longrightarrow> m = n"
  by (rule box_equals [OF arg_cong [of _ _ read_nat] read_nat_show_nat read_nat_show_nat])

text \<open>A signature determines the two counts it was built from.\<close>

lemma signature_of_inj:
  assumes "signature_of t b = signature_of t' b'"
  shows "t = t' \<and> b = b'"
proof -
  from assms have "show_nat t @ CHR ''B'' # show_nat b = show_nat t' @ CHR ''B'' # show_nat b'"
    by (simp add: signature_of_def)
  then have "show_nat t = show_nat t' \<and> show_nat b = show_nat b'"
    by (simp add: append_Cons_eq_iff show_nat_no_B)
  then show ?thesis by (simp add: show_nat_inj)
qed

lemma signature_of_1_0: "signature_of 1 0 = ''T1B0''"
  by code_simp

lemma signature_of_1_1: "signature_of 1 1 = ''T1B1''"
  by code_simp

section \<open>The login button\<close>

text \<open>
  C4, as the code has it. A FRAME named "Login Button" whose only direct child is a TEXT
  with the characters "Sign In" is not tracked as a group, whatever the ids and the
  child's name: a FRAME needs two direct children. The counts the extractor computes for
  the node show when the same node is an INSTANCE, which is tracked with any number of
  children: \<open>text = 1\<close>, and \<open>buttons = 1\<close> only when the child's name (not its characters)
  is button-like, so the signature is "T1B0" or "T1B1". Extraction is a function of
  the node alone, so the result is the same for every platform's copy of it.
\<close>

theorem login_button_frame:
  "f_groups (extractFeatures
      (Node i ''Login Button'' ''FRAME'' c [Node ci cn ''TEXT'' ''Sign In'' []]) no_features) = [] \<and>
   map (\<lambda>g. (g_recipe g, g_signature g))
     (f_groups (extractFeatures
        (Node i ''Login Button'' ''INSTANCE'' c [Node ci cn ''TEXT'' ''Sign In'' []]) no_features)) =
     [(\<lparr>r_text = 1,
        r_buttons = (if buttonNamed (Node ci cn ''TEXT'' ''Sign In'' []) then 1 else 0),
        r_total = 1\<rparr>,
       (if buttonNamed (Node ci cn ''TEXT'' ''Sign In'' []) then ''T1B1'' else ''T1B0''))]"
  unfolding f_groups_extractFeatures
  by (simp add: tracked_def group_of_def containerTypes_def no_features_def
        signature_of_1_0 [simplified] signature_of_1_1 [simplified])

text \<open>
  The claim as stated fails: for the frame no group is produced, and for the same node as
  an INSTANCE the signature is "T1B0", not "T0B1".
\<close>

theorem login_button_frame_counterexample:
  "f_groups (extractFeatures login_button no_features) = [] \<and>
   map g_signature
     (f_groups (extractFeatures
        (Node ''6:1'' ''Login Button'' ''INSTANCE'' [] [Node ''6:2'' ''Sign In'' ''TEXT'' ''Sign In'' []])
        no_features)) = [''T1B0'']"
  by code_simp

section \<open>The matcher's fast paths\<close>

lemma structuralGroup_group_of: "structuralGroup (group_of node)"
  by (simp add: structuralGroup_def group_of_def)

lemma extractFeatures_structuralGroup:
  "g \<in> set (f_groups (extractFeatures node no_features)) \<Longrightarrow> structuralGroup g"
  by (auto simp: f_groups_extractFeatures no_features_def structuralGroup_group_of)

lemma structuralGroup_same_signature:
  assumes "structuralGroup a" and "structuralGroup b" and "g_signature a = g_signature b"
  shows "r_text (g_recipe a) = r_text (g_recipe b) \<and>
         r_buttons (g_recipe a) = r_buttons (g_recipe b)"
proof (rule signature_of_inj)
  from assms show "signature_of (r_text (g_recipe a)) (r_buttons (g_recipe a)) =
                   signature_of (r_text (g_recipe b)) (r_buttons (g_recipe b))"
    by (simp add: structuralGroup_def)
qed

lemma areComponentsSimilar_different_recipe:
  assumes "\<not> (r_text (g_recipe a) = r_text (g_recipe b) \<and>
              r_buttons (g_recipe a) = r_buttons (g_recipe b))"
  shows "areComponentsSimilar a b caller m = m\<lparr>resolved := resolved m @ [(caller, False)]\<rparr>"
  using assms by (auto simp: areComponentsSimilar_def)

text \<open>
  C5, as the code has it. A call whose two groups differ in the text count or the button
  count of their recipes resolves its promise with false at once. A call on two groups
  with the same counts, the same name and the same signature resolves it with true at
  once. In both cases nothing else of the matcher's state changes: nothing is queued, no
  timer is set and nothing is handed to the oracle, whose state the function does not
  read. The test of the counts comes first; for groups whose signature is the one built
  from their recipe, as the extractor builds them, equal signatures have equal counts.
\<close>

theorem matcher_fast_path:
  "(\<not> (r_text (g_recipe a) = r_text (g_recipe b) \<and>
        r_buttons (g_recipe a) = r_buttons (g_recipe b)) \<longrightarrow>
    areComponentsSimilar a b caller m = m\<lparr>resolved := resolved m @ [(caller, False)]\<rparr>) \<and>
   (r_text (g_recipe c) = r_text (g_recipe d) \<and> r_buttons (g_recipe c) = r_buttons (g_recipe d) \<and>
    g_name c = g_name d \<and> g_signature c = g_signature d \<longrightarrow>
    areComponentsSimilar c d caller' m' = m'\<lparr>resolved := resolved m' @ [(caller', True)]\<rparr>) \<and>
   (structuralGroup g \<and> structuralGroup h \<and> g_signature g = g_signature h \<longrightarrow>
    r_text (g_recipe g) = r_text (g_recipe h) \<and> r_buttons (g_recipe g) = r_buttons (g_recipe h))"
proof (intro conjI impI)
  assume "\<not> (r_text (g_recipe a) = r_text (g_recipe b) \<and>
             r_buttons (g_recipe a) = r_buttons (g_recipe b))"
  then show "areComponentsSimilar a b caller m = m\<lparr>resolved := resolved m @ [(caller, False)]\<rparr>"
    by (rule areComponentsSimilar_different_recipe)
next
  assume "r_text (g_recipe c) = r_text (g_recipe d) \<and>
          r_buttons (g_recipe c) = r_buttons (g_recipe d) \<and>
          g_name c = g_name d \<and> g_signature c = g_signature d"
  then show "areComponentsSimilar c d caller' m' = m'\<lparr>resolved := resolved m' @ [(caller', True)]\<rparr>"
    by (simp add: areComponentsSimilar_def)
next
  assume k: "structuralGroup g \<and> structuralGroup h \<and> g_signature g = g_signature h"
  note r = structuralGroup_same_signature
             [OF conjunct1 [OF k] conjunct1 [OF conjunct2 [OF k]] conjunct2 [OF conjunct2 [OF k]]]
  show "r_text (g_recipe g) = r_text (g_recipe h)"
    by (rule conjunct1 [OF r])
  show "r_buttons (g_recipe g) = r_buttons (g_recipe h)"
    by (rule conjunct2 [OF r])
qed

theorem matcher_fast_path_witness:
  "r_buttons (g_recipe (group_of search_android)) = 1 \<and>
   r_buttons (g_recipe (group_of search_web)) = 0 \<and>
   areComponentsSimilar (group_of search_android) (group_of search_web) 0 idle =
     idle\<lparr>resolved := resolved idle @ [(0, False)]\<rparr> \<and>
   r_text (g_recipe (group_of search_ios)) = 0 \<and>
   r_buttons (g_recipe (group_of search_ios)) = 0 \<and>
   g_name (group_of search_ios) = ''Search Icon'' \<and>
   g_signature (group_of search_ios) = ''T0B0'' \<and>
   areComponentsSimilar (group_of search_ios) (group_of search_ios) 1 idle =
     idle\<lparr>resolved := resolved idle @ [(1, True)]\<rparr> \<and>
   structuralGroup (group_of search_web) \<and> structuralGroup (group_of search_field) \<and>
   g_signature (group_of search_web) = ''T1B0'' \<and>
   g_signature (group_of search_field) = ''T1B0'' \<and>
   r_text (g_recipe (group_of search_web)) = r_text (g_recipe (group_of search_field)) \<and>
   r_buttons (g_recipe (group_of search_web)) = r_buttons (g_recipe (group_of search_field))"
proof -
  have b1: "r_buttons (g_recipe (group_of search_android)) = 1"
    and b2: "r_buttons (g_recipe (group_of search_web)) = 0"
    and t3: "r_text (g_recipe (group_of search_ios)) = 0"
    and b3: "r_buttons (g_recipe (group_of search_ios)) = 0"
    and n: "g_name (group_of search_ios) = ''Search Icon''"
    and s: "g_signature (group_of search_ios) = ''T0B0''"
    and s1: "g_signature (group_of search_web) = ''T1B0''"
    and s2: "g_signature (group_of search_field) = ''T1B0''"
    by code_simp+
  have h1: "\<not> (r_text (g_recipe (group_of search_android)) = r_text (g_recipe (group_of search_web)) \<and>
        r_buttons (g_recipe (group_of search_android)) = r_buttons (g_recipe (group_of search_web)))"
    by (simp add: b1 b2)
  have h2: "r_text (g_recipe (group_of search_ios)) = r_text (g_recipe (group_of search_ios)) \<and>
            r_buttons (g_recipe (group_of search_ios)) = r_buttons (g_recipe (group_of search_ios)) \<and>
            g_name (group_of search_ios) = g_name (group_of search_ios) \<and>
            g_signature (group_of search_ios) = g_signature (group_of search_ios)"
    by simp
  have w1: "structuralGroup (group_of search_web)" and w2: "structuralGroup (group_of search_field)"
    by (rule structuralGroup_group_of)+
  have h3: "structuralGroup (group_of search_web) \<and> structuralGroup (group_of search_field) \<and>
            g_signature (group_of search_web) = g_signature (group_of search_field)"
    using w1 w2 by (simp add: s1 s2)
  note t = matcher_fast_path [of "group_of search_android" "group_of search_web" 0 idle
             "group_of search_ios" "group_of search_ios" 1 idle
             "group_of search_web" "group_of search_field"]
  note c1 = mp [OF conjunct1 [OF t] h1]
  note c2 = mp [OF conjunct1 [OF conjunct2 [OF t]] h2]
  note c3 = mp [OF conjunct2 [OF conjunct2 [OF t]] h3]
  from b1 b2 c1 t3 b3 n s c2 w1 w2 s1 s2 conjunct1 [OF c3] conjunct2 [OF c3]
  show ?thesis by (intro conjI)
qed

text \<open>
  The claim as stated fails on two groups of the same name and signature whose recipes
  differ: the test of the counts comes first and the call resolves with false.
\<close>

theorem matcher_fast_path_counterexample:
  "g_name tile_a = g_name tile_b \<and> g_signature tile_a = g_signature tile_b \<and>
   areComponentsSimilar tile_a tile_b 0 idle = idle\<lparr>resolved := resolved idle @ [(0, False)]\<rparr>"
  by code_simp

section \<open>Text nodes in flat extraction\<close>

lemma traverse_leaf: "traverse (Node i n t c []) fs = traverse_node (Node i n t c []) fs"
  by simp

lemma traverse_node_text:
  assumes "trim c \<noteq> []"
  shows "traverse_node (Node i n ''TEXT'' c cs) fs =
           addFeature \<lparr>ft_name = trim c, ft_type = classifyTextElement c n\<rparr> fs"
  using assms by (simp add: traverse_node_def Let_def)

lemma classifyTextElement_cases:
  "classifyTextElement c n =
     (if includes_str (toLowerCase n) ''button'' \<or> includes_str (toLowerCase n) ''btn'' \<or>
         toLowerCase c \<in> set buttonVerbs
      then BUTTON else TEXT)"
  by (simp add: classifyTextElement_def Let_def)

text \<open>
  C3, as the code has it. A TEXT node whose trimmed characters are not empty records
  exactly one feature, named by the trimmed characters. Its category is BUTTON if and
  only if the node's name contains "button" or "btn", ignoring case, or the characters
  as they stand, not trimmed, are one of the nine button verbs, ignoring case;
  otherwise it is TEXT. Into sets that hold features already, the feature is added to
  \<open>all\<close> unless it is there.
\<close>

theorem text_node_feature:
  "(trim c \<noteq> [] \<longrightarrow>
     extractFeatures_flat (Node i n ''TEXT'' c []) =
       (if includes_str (toLowerCase n) ''button'' \<or> includes_str (toLowerCase n) ''btn'' \<or>
           toLowerCase c \<in> set buttonVerbs
        then \<lparr>fl_text = [],
              fl_buttons = [\<lparr>ft_name = trim c, ft_type = BUTTON\<rparr>],
              fl_all = [\<lparr>ft_name = trim c, ft_type = BUTTON\<rparr>]\<rparr>
        else \<lparr>fl_text = [\<lparr>ft_name = trim c, ft_type = TEXT\<rparr>],
              fl_buttons = [],
              fl_all = [\<lparr>ft_name = trim c, ft_type = TEXT\<rparr>]\<rparr>)) \<and>
   (trim c \<noteq> [] \<longrightarrow>
     fl_all (traverse_node (Node i n ''TEXT'' c cs) fs) =
       set_add \<lparr>ft_name = trim c,
                ft_type = (if includes_str (toLowerCase n) ''button'' \<or>
                              includes_str (toLowerCase n) ''btn'' \<or>
                              toLowerCase c \<in> set buttonVerbs
                           then BUTTON else TEXT)\<rparr> (fl_all fs))"
proof (intro conjI impI)
  assume t: "trim c \<noteq> []"
  show "extractFeatures_flat (Node i n ''TEXT'' c []) =
       (if includes_str (toLowerCase n) ''button'' \<or> includes_str (toLowerCase n) ''btn'' \<or>
           toLowerCase c \<in> set buttonVerbs
        then \<lparr>fl_text = [],
              fl_buttons = [\<lparr>ft_name = trim c, ft_type = BUTTON\<rparr>],
              fl_all = [\<lparr>ft_name = trim c, ft_type = BUTTON\<rparr>]\<rparr>
        else \<lparr>fl_text = [\<lparr>ft_name = trim c, ft_type = TEXT\<rparr>],
              fl_buttons = [],
              fl_all = [\<lparr>ft_name = trim c, ft_type = TEXT\<rparr>]\<rparr>)"
    unfolding extractFeatures_flat_def traverse_leaf traverse_node_text [OF t]
      classifyTextElement_cases
    by (simp add: addFeature_def set_add_def)
next
  assume t: "trim c \<noteq> []"
  show "fl_all (traverse_node (Node i n ''TEXT'' c cs) fs) =
       set_add \<lparr>ft_name = trim c,
                ft_type = (if includes_str (toLowerCase n) ''button'' \<or>
                              includes_str (toLowerCase n) ''btn'' \<or>
                              toLowerCase c \<in> set buttonVerbs
                           then BUTTON else TEXT)\<rparr> (fl_all fs)"
    unfolding traverse_node_text [OF t] classifyTextElement_cases
    by (simp add: addFeature_def)
qed

theorem text_node_feature_witness:
  "trim ''Sign In'' = ''Sign In'' \<and>
   extractFeatures_flat (Node ''7:1'' ''Label'' ''TEXT'' ''Sign In'' []) =
     \<lparr>fl_text = [],
      fl_buttons = [\<lparr>ft_name = ''Sign In'', ft_type = BUTTON\<rparr>],
      fl_all = [\<lparr>ft_name = ''Sign In'', ft_type = BUTTON\<rparr>]\<rparr> \<and>
   fl_all (traverse_node (Node ''7:1'' ''Label'' ''TEXT'' ''Sign In'' []) no_flat_features) =
     [\<lparr>ft_name = ''Sign In'', ft_type = BUTTON\<rparr>]"
proof -
  have tr: "trim ''Sign In'' = ''Sign In''"
    by code_simp
  have ne: "trim ''Sign In'' \<noteq> []"
    by (simp add: tr)
  have v: "includes_str (toLowerCase ''Label'') ''button'' \<or>
           includes_str (toLowerCase ''Label'') ''btn'' \<or>
           toLowerCase ''Sign In'' \<in> set buttonVerbs"
    by code_simp
  note t = text_node_feature [of "''Sign In''" "''7:1''" "''Label''" "[]" no_flat_features]
  from mp [OF conjunct1 [OF t] ne] mp [OF conjunct2 [OF t] ne] v tr
  show ?thesis
    by (simp add: no_flat_features_def set_add_def)
qed

text \<open>
  The claim as stated fails on characters with white space around a button verb: the
  trimmed characters of "Sign In " are "Sign In", which is the verb "sign in"
  ignoring case, and the node's name has no "button" or "btn", but the feature recorded is
  a TEXT. It is the same after a no-break space.
\<close>

theorem text_node_feature_counterexample:
  "toLowerCase (trim ''Sign In '') = ''sign in'' \<and>
   extractFeatures_flat (Node ''7:1'' ''Label'' ''TEXT'' ''Sign In '' []) =
     \<lparr>fl_text = [\<lparr>ft_name = ''Sign In'', ft_type = TEXT\<rparr>],
      fl_buttons = [],
      fl_all = [\<lparr>ft_name = ''Sign In'', ft_type = TEXT\<rparr>]\<rparr> \<and>
   toLowerCase (trim (''Sign In'' @ [CHR 0xA0])) = ''sign in'' \<and>
   extractFeatures_flat (Node ''7:1'' ''Label'' ''TEXT'' (''Sign In'' @ [CHR 0xA0]) []) =
     \<lparr>fl_text = [\<lparr>ft_name = ''Sign In'', ft_type = TEXT\<rparr>],
      fl_buttons = [],
      fl_all = [\<lparr>ft_name = ''Sign In'', ft_type = TEXT\<rparr>]\<rparr>"
  by code_simp

section \<open>Depth of the traversals\<close>

lemma extractDetailedHierarchy_beyond:
  "maxDepth < depth \<Longrightarrow> extractDetailedHierarchy node depth maxDepth = None"
  by (cases node) simp

lemma extractDetailedHierarchy_within:
  "depth \<le> maxDepth \<Longrightarrow> \<exists>s. extractDetailedHierarchy node depth maxDepth = Some s"
  by (cases node) (simp add: Let_def)

lemma extractDetailedHierarchy_fields:
  assumes "extractDetailedHierarchy (Node i n t c cs) depth maxDepth = Some s"
  shows "s_id s = i" and "s_depth s = depth"
    and "s_children s =
           map the (filter (\<lambda>r. r \<noteq> None)
             (map (\<lambda>child. extractDetailedHierarchy child (depth + 1) maxDepth) cs))"
  using assms by (auto simp: Let_def split: if_splits)

lemma s_preorder_unfold: "s_preorder s = s # concat (map s_preorder (s_children s))"
  by (cases s) simp

lemma children_none:
  assumes "\<And>c. c \<in> set cs \<Longrightarrow> f c = None"
  shows "map the (filter (\<lambda>r. r \<noteq> None) (map f cs)) = []"
  using assms by (induction cs) simp_all

lemma children_some:
  assumes "\<And>c. c \<in> set cs \<Longrightarrow> f c \<noteq> None"
  shows "map the (filter (\<lambda>r. r \<noteq> None) (map f cs)) = map (\<lambda>c. the (f c)) cs"
  using assms by (induction cs) simp_all

text \<open>
  The structure holds the nodes of the tree down to the depth cap, in the same order, and
  none below it.
\<close>

lemma extractDetailedHierarchy_nodes:
  assumes "depth \<le> maxDepth"
    and "extractDetailedHierarchy node depth maxDepth = Some s"
  shows "map s_id (s_preorder s) = map nid (preorder (truncate (maxDepth - depth) node)) \<and>
         list_all (\<lambda>x. s_depth x \<le> maxDepth) (s_preorder s)"
  using assms
proof (induction node arbitrary: depth s)
  case (Node i n t c cs)
  let ?f = "\<lambda>child. extractDetailedHierarchy child (depth + 1) maxDepth"
  note fields = extractDetailedHierarchy_fields [OF Node.prems(2)]
  show ?case
  proof (cases "depth = maxDepth")
    case True
    have "s_children s = []"
      unfolding fields(3)
      by (rule children_none) (simp add: extractDetailedHierarchy_beyond True)
    then show ?thesis
      using fields(1,2) True by (simp add: s_preorder_unfold [of s])
  next
    case False
    with Node.prems(1) have lt: "depth + 1 \<le> maxDepth" by simp
    have some: "?f child \<noteq> None" for child
      using extractDetailedHierarchy_within [OF lt, of child] by auto
    have ch: "s_children s = map (\<lambda>child. the (?f child)) cs"
      unfolding fields(3) by (rule children_some) (rule some)
    have ih: "map s_id (s_preorder (the (?f child))) =
                map nid (preorder (truncate (maxDepth - (depth + 1)) child)) \<and>
              list_all (\<lambda>x. s_depth x \<le> maxDepth) (s_preorder (the (?f child)))"
      if "child \<in> set cs" for child
    proof -
      from some [of child] obtain s' where s': "?f child = Some s'" by auto
      from Node.IH [OF that lt s'] s' show ?thesis by simp
    qed
    have ids: "concat (map (\<lambda>child. map s_id (s_preorder (the (?f child)))) cs) =
               concat (map (\<lambda>child. map nid (preorder (truncate (maxDepth - (depth + 1)) child))) cs)"
      by (rule arg_cong [of _ _ concat], rule map_cong [OF refl], rule conjunct1 [OF ih])
    have deep: "list_all (\<lambda>x. s_depth x \<le> maxDepth)
                  (concat (map (\<lambda>child. s_preorder (the (?f child))) cs))"
      using ih by (induction cs) simp_all
    from False Node.prems(1) have pos: "maxDepth - depth \<noteq> 0"
      and sub: "maxDepth - depth - 1 = maxDepth - (depth + 1)"
      by simp_all
    show ?thesis
      using fields(1,2) Node.prems(1) ids deep pos sub
      by (simp add: s_preorder_unfold [of s] ch map_concat comp_def)
  qed
qed

lemma fold_max_le: "fold max xs a \<le> (k::nat) \<longleftrightarrow> a \<le> k \<and> (\<forall>x \<in> set xs. x \<le> k)"
proof (induction xs arbitrary: a)
  case Nil
  show ?case by simp
next
  case (Cons x xs)
  have "fold max (x # xs) a \<le> k \<longleftrightarrow> max x a \<le> k \<and> (\<forall>y \<in> set xs. y \<le> k)"
    by (simp add: Cons.IH)
  also have "\<dots> \<longleftrightarrow> a \<le> k \<and> (\<forall>y \<in> set (x # xs). y \<le> k)"
    by auto
  finally show ?case .
qed

lemma levels_le_Suc:
  "levels (Node i n t c cs) \<le> Suc k \<longleftrightarrow> (\<forall>child \<in> set cs. levels child \<le> k)"
  by (simp add: fold_max_le)

lemma levels_pos: "\<not> levels node \<le> 0"
  by (cases node) simp

lemma fold_option_all:
  "(\<And>x a. x \<in> set xs \<Longrightarrow> f x a = Some (g x a)) \<Longrightarrow> fold_option f xs a = Some (fold g xs a)"
  by (induction xs arbitrary: a) simp_all

lemma fold_option_none:
  "x \<in> set xs \<Longrightarrow> (\<And>a. f x a = None) \<Longrightarrow> fold_option f xs a = None"
  by (induction xs arbitrary: a) (auto split: option.splits)

lemma traverse_on_stack_levels:
  "traverse_on_stack frames node fs =
     (if levels node \<le> frames then Some (traverse node fs) else None)"
proof (induction frames arbitrary: node fs)
  case 0
  show ?case using levels_pos [of node] by simp
next
  case (Suc k)
  obtain i n t c cs where node: "node = Node i n t c cs" by (cases node)
  show ?case
  proof (cases "\<forall>child \<in> set cs. levels child \<le> k")
    case True
    then have "fold_option (traverse_on_stack k) cs a = Some (fold traverse cs a)" for a
      by (intro fold_option_all) (simp add: Suc.IH)
    with True show ?thesis
      unfolding node levels_le_Suc by (simp add: Let_def)
  next
    case False
    then obtain child where ch: "child \<in> set cs" and deep: "\<not> levels child \<le> k" by auto
    from deep have "traverse_on_stack k child a = None" for a
      by (simp add: Suc.IH)
    with ch have "fold_option (traverse_on_stack k) cs a = None" for a
      by (rule fold_option_none)
    moreover from ch have "cs \<noteq> []" by auto
    ultimately show ?thesis
      using False unfolding node levels_le_Suc by (simp add: Let_def)
  qed
qed

lemma extractFeatures_on_stack_levels:
  "extractFeatures_on_stack frames node fs =
     (if levels node \<le> frames then Some (extractFeatures node fs) else None)"
proof (induction frames arbitrary: node fs)
  case 0
  show ?case using levels_pos [of node] by simp
next
  case (Suc k)
  obtain i n t c cs where node: "node = Node i n t c cs" by (cases node)
  show ?case
  proof (cases "\<forall>child \<in> set cs. levels child \<le> k")
    case True
    then have "fold_option (extractFeatures_on_stack k) cs a = Some (fold extractFeatures cs a)" for a
      by (intro fold_option_all) (simp add: Suc.IH)
    with True show ?thesis
      unfolding node levels_le_Suc by simp
  next
    case False
    then obtain child where ch: "child \<in> set cs" and deep: "\<not> levels child \<le> k" by auto
    from deep have "extractFeatures_on_stack k child a = None" for a
      by (simp add: Suc.IH)
    with ch have "fold_option (extractFeatures_on_stack k) cs a = None" for a
      by (rule fold_option_none)
    then show ?thesis
      using False unfolding node levels_le_Suc by simp
  qed
qed

lemma those_map_Some: "those (map (\<lambda>x. Some (f x)) xs) = Some (map f xs)"
  by (induction xs) simp_all

lemma extractDetailedHierarchy_on_stack_capped:
  "depth \<le> maxDepth + 1 \<Longrightarrow> maxDepth + 2 \<le> frames + depth \<Longrightarrow>
   extractDetailedHierarchy_on_stack frames node depth maxDepth =
     Some (extractDetailedHierarchy node depth maxDepth)"
proof (induction frames arbitrary: node depth)
  case 0
  then show ?case by simp
next
  case (Suc k)
  obtain i n t c cs where node: "node = Node i n t c cs" by (cases node)
  show ?case
  proof (cases "depth > maxDepth")
    case True
    then show ?thesis unfolding node by simp
  next
    case False
    with Suc.prems have d: "depth + 1 \<le> maxDepth + 1" and f: "maxDepth + 2 \<le> k + (depth + 1)"
      by simp_all
    have "map (\<lambda>child. extractDetailedHierarchy_on_stack k child (depth + 1) maxDepth) cs =
          map (\<lambda>child. Some (extractDetailedHierarchy child (depth + 1) maxDepth)) cs"
      by (rule map_cong [OF refl]) (rule Suc.IH [OF d f])
    then have "those (map (\<lambda>child. extractDetailedHierarchy_on_stack k child (depth + 1) maxDepth) cs) =
          Some (map (\<lambda>child. extractDetailedHierarchy child (depth + 1) maxDepth) cs)"
      by (simp only: those_map_Some)
    with False show ?thesis
      unfolding node by (simp add: Let_def)
  qed
qed

lemma levels_nested: "levels (nested k leaf) = k + levels leaf"
  by (induction k) simp_all

text \<open>
  C7, as the code has it. The flat and the structural extractor have no depth cap: they
  apply their step to every node of the tree, at any depth, and they nest one call for
  every level of the tree, so that they return exactly when the call stack holds as many
  nested calls as the tree has levels and throw otherwise: whatever the stack holds,
  they throw on a leaf under that many frames nested in one another. The hierarchical
  extractor nests at most 17 calls whatever the tree: it returns a structure for every
  document as soon as the stack holds 17 nested calls; the structure holds the nodes at
  depths 0 to 15 and omits the nodes below.
\<close>

theorem traversal_depth:
  "traverse node ffs = fold traverse_node (preorder node) ffs \<and>
   extractFeatures node fs = fold extractFeatures_node (preorder node) fs \<and>
   traverse_on_stack frames node ffs =
     (if levels node \<le> frames then Some (traverse node ffs) else None) \<and>
   extractFeatures_on_stack frames node fs =
     (if levels node \<le> frames then Some (extractFeatures node fs) else None) \<and>
   traverse_on_stack frames (nested frames leaf) ffs = None \<and>
   extractFeatures_on_stack frames (nested frames leaf) fs = None \<and>
   extractDetailedHierarchy_on_stack (17 + frames) node 0 15 =
     Some (extractDetailedHierarchy node 0 15) \<and>
   (\<exists>s. hf_fullTree (extractHierarchicalFeatures node) = Some s \<and>
        map s_id (s_preorder s) = map nid (preorder (truncate 15 node)) \<and>
        list_all (\<lambda>x. s_depth x \<le> 15) (s_preorder s))"
proof (intro conjI)
  show "traverse node ffs = fold traverse_node (preorder node) ffs"
    by (rule traverse_preorder)
  show "extractFeatures node fs = fold extractFeatures_node (preorder node) fs"
    by (rule extractFeatures_preorder)
  show "traverse_on_stack frames node ffs =
     (if levels node \<le> frames then Some (traverse node ffs) else None)"
    by (rule traverse_on_stack_levels)
  show "extractFeatures_on_stack frames node fs =
     (if levels node \<le> frames then Some (extractFeatures node fs) else None)"
    by (rule extractFeatures_on_stack_levels)
  have deep: "\<not> levels (nested frames leaf) \<le> frames"
    using levels_pos [of leaf] by (simp add: levels_nested)
  show "traverse_on_stack frames (nested frames leaf) ffs = None"
    using deep by (simp add: traverse_on_stack_levels)
  show "extractFeatures_on_stack frames (nested frames leaf) fs = None"
    using deep by (simp add: extractFeatures_on_stack_levels)
  show "extractDetailedHierarchy_on_stack (17 + frames) node 0 15 =
     Some (extractDetailedHierarchy node 0 15)"
    by (rule extractDetailedHierarchy_on_stack_capped) simp_all
  from extractDetailedHierarchy_within [of 0 15 node]
  obtain s where s: "extractDetailedHierarchy node 0 15 = Some s" by auto
  from extractDetailedHierarchy_nodes [OF _ s]
  have "map s_id (s_preorder s) = map nid (preorder (truncate 15 node)) \<and>
        list_all (\<lambda>x. s_depth x \<le> 15) (s_preorder s)"
    by simp
  with s show "\<exists>s. hf_fullTree (extractHierarchicalFeatures node) = Some s \<and>
        map s_id (s_preorder s) = map nid (preorder (truncate 15 node)) \<and>
        list_all (\<lambda>x. s_depth x \<le> 15) (s_preorder s)"
    by (simp add: extractHierarchicalFeatures_def Let_def)
qed

text \<open>
  The claim as stated fails for the flat and the structural extractor: a text under 16
  nested frames, at depth 16, is extracted by both, and on a stack that holds 16 nested
  calls both throw on this tree of 17 levels. The hierarchical extractor omits the text:
  its structure has the 16 frames only.
\<close>

theorem traversal_depth_counterexample:
  "fl_all (extractFeatures_flat (nested 16 deep_label)) = [\<lparr>ft_name = ''Deep'', ft_type = TEXT\<rparr>] \<and>
   map tf_text (f_text (extractFeatures (nested 16 deep_label) no_features)) = [''Deep''] \<and>
   levels (nested 16 deep_label) = 17 \<and>
   traverse_on_stack 16 (nested 16 deep_label) \<lparr>fl_text = [], fl_buttons = [], fl_all = []\<rparr> = None \<and>
   extractFeatures_on_stack 16 (nested 16 deep_label) no_features = None \<and>
   map (\<lambda>s. map s_type (s_preorder s))
       (case_option [] (\<lambda>s. [s]) (hf_fullTree (extractHierarchicalFeatures (nested 16 deep_label)))) =
     [replicate 16 ''FRAME'']"
  by code_simp

section \<open>A text node without text\<close>















section \<open>Settling a batch\<close>

lemma snd_batchStructuralMatch_no_text:
  assumes "answer_text env = None" and "batch \<noteq> []"
  shows "\<exists>e. snd (batchStructuralMatch batch env) = Inl e"
  using assms
  by (auto simp: batchStructuralMatch_def callAI_with_refresh_def answer_text_def
           split: http_result.splits option.splits if_splits)

lemma snd_batchStructuralMatch_text:
  assumes "answer_text env = Some text" and "batch \<noteq> []"
  shows "snd (batchStructuralMatch batch env) = Inr (parseResponse batch text)"
  using assms
  by (auto simp: batchStructuralMatch_def callAI_with_refresh_def answer_text_def
           split: http_result.splits option.splits if_splits)

lemma match_here_letter: "match_here s = Some (ds, v) \<Longrightarrow> v \<in> set ''YNyn''"
  by (auto simp: match_here_def Let_def split: list.splits if_splits)

lemma match_verdict_letter: "match_verdict line = Some (ds, v) \<Longrightarrow> v \<in> set ''YNyn''"
proof (induction line)
  case Nil
  then show ?case by simp
next
  case (Cons c cs)
  then show ?case
    by (auto split: option.splits dest: match_here_letter)
qed

lemma toUpperCase_char_verdict:
  "v \<in> set ''YNyn'' \<Longrightarrow> (toUpperCase_char v = CHR ''Y'') = (v = CHR ''Y'' \<or> v = CHR ''y'')"
  by (auto simp: toUpperCase_char_def)

lemma parseLine_verdict:
  "parseLine pairs line m k =
     (if line_verdict_for pairs k line then Some (line_says_yes line) else m k)"
proof (cases "match_verdict line")
  case None
  then show ?thesis by (simp add: parseLine_def line_verdict_for_def)
next
  case (Some r)
  obtain ds v where r: "r = (ds, v)" by (cases r)
  from Some r have "v \<in> set ''YNyn''" by (auto dest: match_verdict_letter)
  then have "(toUpperCase_char v = CHR ''Y'') = (v = CHR ''Y'' \<or> v = CHR ''y'')"
    by (rule toUpperCase_char_verdict)
  with Some r show ?thesis
    by (simp add: parseLine_def line_verdict_for_def line_says_yes_def Let_def)
qed

lemma fold_parseLine_verdicts:
  "fold (parseLine pairs) ls m k =
     (if filter (line_verdict_for pairs k) ls = [] then m k
      else Some (last (map line_says_yes (filter (line_verdict_for pairs k) ls))))"
proof (induction ls arbitrary: m)
  case Nil
  show ?case by simp
next
  case (Cons l ls)
  have "fold (parseLine pairs) (l # ls) m k = fold (parseLine pairs) ls (parseLine pairs l m) k"
    by simp
  also have "\<dots> =
     (if filter (line_verdict_for pairs k) ls = [] then parseLine pairs l m k
      else Some (last (map line_says_yes (filter (line_verdict_for pairs k) ls))))"
    by (rule Cons.IH)
  also have "\<dots> =
     (if filter (line_verdict_for pairs k) (l # ls) = [] then m k
      else Some (last (map line_says_yes (filter (line_verdict_for pairs k) (l # ls)))))"
    by (simp add: parseLine_verdict)
  finally show ?case .
qed

lemma parseResponse_verdicts:
  "parseResponse pairs text k =
     (if verdicts_for pairs text k = [] then None else Some (last (verdicts_for pairs text k)))"
  by (simp add: parseResponse_def verdicts_for_def fold_parseLine_verdicts)

lemma verdicts_for_own_number:
  assumes d: "distinct (map p_id pairs)" and j: "j < length pairs"
  shows "verdicts_for pairs text (p_id (pairs ! j)) = verdicts_numbered (Suc j) text"
proof -
  have "line_verdict_for pairs (p_id (pairs ! j)) line = line_number_is (Suc j) line" for line
  proof (cases "match_verdict line")
    case None
    then show ?thesis by (simp add: line_verdict_for_def line_number_is_def)
  next
    case (Some r)
    obtain ds v where r: "r = (ds, v)" by (cases r)
    show ?thesis
    proof (cases "1 \<le> read_nat ds \<and> read_nat ds \<le> length pairs")
      case True
      then have lt: "read_nat ds - 1 < length pairs" by arith
      from d have "(map p_id pairs ! (read_nat ds - 1) = map p_id pairs ! j) = (read_nat ds - 1 = j)"
        by (rule nth_eq_iff_index_eq) (use lt j in simp_all)
      with lt j have "(p_id (pairs ! (read_nat ds - 1)) = p_id (pairs ! j)) = (read_nat ds - 1 = j)"
        by simp
      with True Some r show ?thesis
        by (auto simp: line_verdict_for_def line_number_is_def)
    next
      case False
      with Some r j show ?thesis
        by (auto simp: line_verdict_for_def line_number_is_def)
    qed
  qed
  then have "line_verdict_for pairs (p_id (pairs ! j)) = line_number_is (Suc j)"
    by (intro ext)
  then show ?thesis by (simp add: verdicts_for_def verdicts_numbered_def)
qed

lemma settle_no_text:
  assumes "answer_text env = None"
  shows "settle batch env = map (\<lambda>item. (p_resolve item, sameNameIgnoringCase item)) batch"
proof (cases "batch = []")
  case True
  then show ?thesis by (simp add: settle_def batchStructuralMatch_def)
next
  case False
  from snd_batchStructuralMatch_no_text [OF assms False]
  obtain e where "snd (batchStructuralMatch batch env) = Inl e" ..
  then show ?thesis by (simp add: settle_def sameNameIgnoringCase_def)
qed

lemma settle_text:
  assumes "answer_text env = Some text" and "j < length batch"
  shows "settle batch env ! j =
           (p_resolve (batch ! j),
            verdicts_for batch text (p_id (batch ! j)) \<noteq> [] \<and>
            last (verdicts_for batch text (p_id (batch ! j))))"
proof -
  from assms(2) have ne: "batch \<noteq> []" by auto
  show ?thesis
    using assms(2)
    by (simp add: settle_def snd_batchStructuralMatch_text [OF assms(1) ne] parseResponse_verdicts)
qed

lemma settle_resolves_each:
  "map fst (settle batch env) = map p_resolve batch"
  by (simp add: settle_def comp_def split: sum.splits)

lemma digit_char_is_digit: "d < 10 \<Longrightarrow> isDigit (digit_char d)"
proof -
  assume "d < 10"
  then have "d \<in> {0, 1, 2, 3, 4, 5, 6, 7, 8, 9}" by auto
  then show ?thesis
    by (elim insertE emptyE) (simp_all add: isDigit_def digit_char_def)
qed

lemma show_nat_all_digits: "\<forall>c \<in> set (show_nat n). isDigit c"
proof (induction n rule: show_nat.induct)
  case (1 n)
  show ?case
  proof (cases "n < 10")
    case True
    then show ?thesis by (subst show_nat.simps) (simp add: digit_char_is_digit)
  next
    case False
    with 1 show ?thesis by (subst show_nat.simps) (simp add: digit_char_is_digit)
  qed
qed

lemma show_nat_not_Nil: "show_nat n \<noteq> []"
  by (subst show_nat.simps) simp

lemma isDigit_colon: "\<not> isDigit (CHR '':'')"
  by (simp add: isDigit_def)

lemma match_verdict_numbered_line:
  assumes "v \<in> set ''YNyn''"
  shows "match_verdict (show_nat n @ CHR '':'' # v # rest) = Some (show_nat n, v)"
proof -
  obtain c cs where s: "show_nat n = c # cs"
    using show_nat_not_Nil [of n] by (cases "show_nat n") auto
  have tw: "takeWhile isDigit (show_nat n @ CHR '':'' # v # rest) = show_nat n"
    using show_nat_all_digits [of n] by (simp add: takeWhile_append2 isDigit_colon)
  have dw: "dropWhile isDigit (show_nat n @ CHR '':'' # v # rest) = CHR '':'' # v # rest"
    using show_nat_all_digits [of n] by (simp add: dropWhile_append2 isDigit_colon)
  have "match_here (show_nat n @ CHR '':'' # v # rest) = Some (show_nat n, v)"
    unfolding match_here_def tw dw using assms show_nat_not_Nil [of n] by simp
  then show ?thesis
    unfolding s by simp
qed

text \<open>
  C6, as the code has it. When \<open>batchStructuralMatch\<close> gets no text from the oracle, because
  the request fails, because the token is refused and the refresh or the second request
  fails, or because the response holds no text, every pair of the batch resolves to the
  equality of the two names in lower case. When it gets a text, a pair resolves to the
  last verdict that the lines of the text give to its id, which is made of the two names,
  and to false when no line gives one; with distinct ids in the batch, these are the
  verdicts of the lines that have the pair's own number, and a line that begins with the
  number, a colon and one of the letters Y and N in either case has this number and this
  letter. In every case each promise of the batch is resolved, once, in the order of the
  batch; nothing is thrown to the callers.
\<close>

theorem batch_verdicts:
  "(answer_text env = None \<longrightarrow>
      settle batch env = map (\<lambda>item. (p_resolve item, sameNameIgnoringCase item)) batch) \<and>
   (answer_text env2 = Some text \<and> j < length batch2 \<longrightarrow>
      settle batch2 env2 ! j =
        (p_resolve (batch2 ! j),
         verdicts_for batch2 text (p_id (batch2 ! j)) \<noteq> [] \<and>
         last (verdicts_for batch2 text (p_id (batch2 ! j))))) \<and>
   (answer_text env2 = Some text \<and> j < length batch2 \<and> distinct (map p_id batch2) \<longrightarrow>
      settle batch2 env2 ! j =
        (p_resolve (batch2 ! j),
         verdicts_numbered (Suc j) text \<noteq> [] \<and> last (verdicts_numbered (Suc j) text))) \<and>
   (v \<in> set ''YNyn'' \<longrightarrow>
      match_verdict (show_nat n @ CHR '':'' # v # rest) = Some (show_nat n, v) \<and>
      read_nat (show_nat n) = n) \<and>
   map fst (settle batch3 env3) = map p_resolve batch3"
proof (intro conjI impI)
  assume "answer_text env = None"
  then show "settle batch env = map (\<lambda>item. (p_resolve item, sameNameIgnoringCase item)) batch"
    by (rule settle_no_text)
next
  assume "answer_text env2 = Some text \<and> j < length batch2"
  then show "settle batch2 env2 ! j =
        (p_resolve (batch2 ! j),
         verdicts_for batch2 text (p_id (batch2 ! j)) \<noteq> [] \<and>
         last (verdicts_for batch2 text (p_id (batch2 ! j))))"
    using settle_text by simp
next
  assume h: "answer_text env2 = Some text \<and> j < length batch2 \<and> distinct (map p_id batch2)"
  then have "verdicts_for batch2 text (p_id (batch2 ! j)) = verdicts_numbered (Suc j) text"
    using verdicts_for_own_number by simp
  with h show "settle batch2 env2 ! j =
        (p_resolve (batch2 ! j),
         verdicts_numbered (Suc j) text \<noteq> [] \<and> last (verdicts_numbered (Suc j) text))"
    using settle_text [of env2 _ j batch2] by simp
next
  assume "v \<in> set ''YNyn''"
  then show "match_verdict (show_nat n @ CHR '':'' # v # rest) = Some (show_nat n, v)"
    by (rule match_verdict_numbered_line)
next
  show "read_nat (show_nat n) = n"
    by (rule read_nat_show_nat)
next
  show "map fst (settle batch3 env3) = map p_resolve batch3"
    by (rule settle_resolves_each)
qed

theorem batch_verdicts_witness:
  "answer_text refusing = None \<and>
   settle two_pairs refusing =
     map (\<lambda>item. (p_resolve item, sameNameIgnoringCase item)) two_pairs \<and>
   settle two_pairs refusing = [(0, False), (1, False)] \<and>
   answer_text wordless = None \<and>
   settle two_pairs wordless = [(0, False), (1, False)] \<and>
   answer_text (answering ''2:n'') = Some ''2:n'' \<and> 1 < length two_pairs \<and>
   settle two_pairs (answering ''2:n'') ! 1 =
     (p_resolve (two_pairs ! 1),
      verdicts_for two_pairs ''2:n'' (p_id (two_pairs ! 1)) \<noteq> [] \<and>
      last (verdicts_for two_pairs ''2:n'' (p_id (two_pairs ! 1)))) \<and>
   distinct (map p_id two_pairs) \<and>
   settle two_pairs (answering ''2:n'') ! 1 =
     (p_resolve (two_pairs ! 1),
      verdicts_numbered (Suc 1) ''2:n'' \<noteq> [] \<and> last (verdicts_numbered (Suc 1) ''2:n'')) \<and>
   verdicts_numbered (Suc 1) ''2:n'' = [False] \<and>
   settle two_pairs (answering ''2:n'') = [(0, False), (1, False)] \<and>
   settle two_pairs (answering ''1:Y'') = [(0, True), (1, False)] \<and>
   CHR ''n'' \<in> set ''YNyn'' \<and>
   match_verdict (show_nat 2 @ CHR '':'' # CHR ''n'' # []) = Some (show_nat 2, CHR ''n'') \<and>
   show_nat 2 @ CHR '':'' # CHR ''n'' # [] = ''2:n'' \<and>
   read_nat (show_nat 2) = 2 \<and>
   map fst (settle two_pairs refusing) = map p_resolve two_pairs"
proof -
  have f: "answer_text refusing = None"
    and w: "answer_text wordless = None"
    and a: "answer_text (answering ''2:n'') = Some ''2:n''"
    and l: "1 < length two_pairs"
    and d: "distinct (map p_id two_pairs)"
    and m: "CHR ''n'' \<in> set ''YNyn''"
    and v1: "settle two_pairs refusing = [(0, False), (1, False)]"
    and v2: "settle two_pairs wordless = [(0, False), (1, False)]"
    and v3: "verdicts_numbered (Suc 1) ''2:n'' = [False]"
    and v4: "settle two_pairs (answering ''2:n'') = [(0, False), (1, False)]"
    and v5: "settle two_pairs (answering ''1:Y'') = [(0, True), (1, False)]"
    and v6: "show_nat 2 @ CHR '':'' # CHR ''n'' # [] = ''2:n''"
    by code_simp+
  note t = batch_verdicts [of refusing two_pairs "answering ''2:n''" "''2:n''" 1 two_pairs
             "CHR ''n''" 2 "[]" two_pairs refusing]
  from a l have h2: "answer_text (answering ''2:n'') = Some ''2:n'' \<and> 1 < length two_pairs"
    by (intro conjI)
  from a l d have h3: "answer_text (answering ''2:n'') = Some ''2:n'' \<and> 1 < length two_pairs \<and>
      distinct (map p_id two_pairs)"
    by (intro conjI)
  note p1 = mp [OF conjunct1 [OF t] f]
  note p2 = mp [OF conjunct1 [OF conjunct2 [OF t]] h2]
  note p3 = mp [OF conjunct1 [OF conjunct2 [OF conjunct2 [OF t]]] h3]
  note p4 = mp [OF conjunct1 [OF conjunct2 [OF conjunct2 [OF conjunct2 [OF t]]]] m]
  note p5 = conjunct2 [OF conjunct2 [OF conjunct2 [OF conjunct2 [OF t]]]]
  from f p1 v1 w v2 a l p2 d p3 v3 v4 v5 m conjunct1 [OF p4] v6 conjunct2 [OF p4] p5
  show ?thesis
    by (intro conjI)
qed

text \<open>
  The claim as stated fails where two pairs of a batch have the same two names, hence the
  same id: the answer "1:Y" has no line with the number 2, and the second pair resolves to
  true, the verdict of the first.
\<close>

theorem batch_verdicts_counterexample:
  "map p_id same_pair_twice = [''Search Input__Search Field'', ''Search Input__Search Field''] \<and>
   answer_text (answering ''1:Y'') = Some ''1:Y'' \<and>
   verdicts_numbered 2 ''1:Y'' = [] \<and>
   settle same_pair_twice (answering ''1:Y'') = [(0, True), (1, True)]"
  by code_simp

section \<open>One batch per window\<close>

lemma run_append: "run (xs @ ys) m = run ys (run xs m)"
  by (simp add: run_def)

lemma run_Cons: "run (e # es) m = run es (step e m)"
  by (simp add: run_def)

lemma run_Nil: "run [] m = m"
  by (simp add: run_def)

lemma areComponentsSimilar_ambiguous:
  "ambiguous a b \<Longrightarrow>
   areComponentsSimilar a b k m =
     m\<lparr>comparisonQueue := comparisonQueue m @ [pending_of (a, b, k)], flushTimer := True\<rparr>"
  by (cases m) (auto simp: areComponentsSimilar_def ambiguous_def pending_of_def Let_def)

lemma run_calls:
  assumes "\<forall>call \<in> set calls. ambiguous (fst call) (fst (snd call))"
  shows "run (calls_of calls) m =
           m\<lparr>comparisonQueue := comparisonQueue m @ map pending_of calls,
             flushTimer := (flushTimer m \<or> calls \<noteq> [])\<rparr>"
  using assms
proof (induction calls arbitrary: m)
  case Nil
  show ?case by (simp add: calls_of_def run_Nil)
next
  case (Cons call calls)
  from Cons.prems have amb: "ambiguous (fst call) (fst (snd call))"
    and rest: "\<forall>call \<in> set calls. ambiguous (fst call) (fst (snd call))"
    by simp_all
  have "run (calls_of (call # calls)) m =
          run (calls_of calls) (areComponentsSimilar (fst call) (fst (snd call)) (snd (snd call)) m)"
    by (simp add: calls_of_def run_Cons)
  also have "\<dots> = run (calls_of calls)
          (m\<lparr>comparisonQueue := comparisonQueue m @ [pending_of call], flushTimer := True\<rparr>)"
    using areComponentsSimilar_ambiguous [OF amb, of "snd (snd call)" m] by simp
  also have "\<dots> = m\<lparr>comparisonQueue := comparisonQueue m @ map pending_of (call # calls),
                     flushTimer := (flushTimer m \<or> call # calls \<noteq> [])\<rparr>"
    by (simp add: Cons.IH [OF rest])
  finally show ?case .
qed

lemma fst_batchStructuralMatch:
  "batch \<noteq> [] \<Longrightarrow> fst (batchStructuralMatch batch env) = posts_of batch env"
  by (auto simp: batchStructuralMatch_def callAI_with_refresh_def posts_of_def
           split: http_result.splits)

lemma window_flush:
  assumes "calls \<noteq> []" and "\<forall>call \<in> set calls. ambiguous (fst call) (fst (snd call))"
    and "comparisonQueue m = []" and "\<not> flushTimer m"
  shows "run (calls_of calls @ [TimerFires]) m =
           m\<lparr>awaiting := awaiting m @ [map pending_of calls],
             batches := batches m @ [map pending_of calls],
             posts := posts m @ [callAI (map pending_of calls) InitialToken]\<rparr>"
  using assms(1,3,4)
  by (cases m) (simp add: run_append run_calls [OF assms(2)] run_Cons run_Nil timerFires_def Let_def)

lemma window_settled:
  assumes "calls \<noteq> []" and "\<forall>call \<in> set calls. ambiguous (fst call) (fst (snd call))"
    and "comparisonQueue m = []" and "\<not> flushTimer m"
  shows "run (calls_of calls @ [TimerFires, BatchReturns (length (awaiting m)) env]) m =
           m\<lparr>batches := batches m @ [map pending_of calls],
             posts := posts m @ posts_of (map pending_of calls) env,
             resolved := resolved m @ settle (map pending_of calls) env\<rparr>"
proof -
  from assms(1) have ne: "map pending_of calls \<noteq> []" by simp
  have "run (calls_of calls @ [TimerFires, BatchReturns (length (awaiting m)) env]) m =
          batchReturns (length (awaiting m)) env (run (calls_of calls @ [TimerFires]) m)"
    using run_append [of "calls_of calls @ [TimerFires]" "[BatchReturns (length (awaiting m)) env]" m]
    by (simp add: run_Cons run_Nil)
  then show ?thesis
    unfolding window_flush [OF assms]
    by (cases m) (simp add: batchReturns_def fst_batchStructuralMatch [OF ne] posts_of_def)
qed

lemma step_queue:
  assumes "concat (batches m) @ comparisonQueue m = ps"
    and "flushTimer m \<longleftrightarrow> comparisonQueue m \<noteq> []"
  shows "concat (batches (step e m)) @ comparisonQueue (step e m) = ps @ queued_of e \<and>
         (flushTimer (step e m) \<longleftrightarrow> comparisonQueue (step e m) \<noteq> [])"
proof (cases e)
  case (Call a b k)
  show ?thesis
  proof (cases "ambiguous a b")
    case True
    with assms Call show ?thesis
      by (simp add: areComponentsSimilar_ambiguous)
  next
    case False
    with assms Call show ?thesis
      by (auto simp: areComponentsSimilar_def ambiguous_def)
  qed
next
  case TimerFires
  with assms show ?thesis by (auto simp: timerFires_def Let_def)
next
  case (BatchReturns j env)
  with assms show ?thesis by (simp add: batchReturns_def)
qed

lemma run_queue:
  assumes "concat (batches m) @ comparisonQueue m = ps"
    and "flushTimer m \<longleftrightarrow> comparisonQueue m \<noteq> []"
  shows "concat (batches (run es m)) @ comparisonQueue (run es m) = ps @ concat (map queued_of es) \<and>
         (flushTimer (run es m) \<longleftrightarrow> comparisonQueue (run es m) \<noteq> [])"
  using assms
proof (induction es arbitrary: m ps)
  case Nil
  then show ?case by (simp add: run_Nil)
next
  case (Cons e es)
  from step_queue [OF Cons.prems]
  have s1: "concat (batches (step e m)) @ comparisonQueue (step e m) = ps @ queued_of e"
    and s2: "flushTimer (step e m) \<longleftrightarrow> comparisonQueue (step e m) \<noteq> []"
    by simp_all
  from Cons.IH [OF s1 s2] show ?case by (simp add: run_Cons)
qed

lemma startsWith_append: "startsWith (p @ s) p"
  by (induction p) simp_all

lemma includes_str_suffix: "includes_str s pat \<Longrightarrow> includes_str (a @ s) pat"
  by (induction a) simp_all

lemma includes_str_middle: "includes_str (a @ pat @ c) pat"
proof -
  have "includes_str (pat @ c) pat"
    by (cases "pat @ c") (use startsWith_append [of pat c] in auto)
  then show ?thesis by (rule includes_str_suffix)
qed

lemma join_nth:
  "i < length xs \<Longrightarrow> \<exists>a c. join sep xs = a @ xs ! i @ c"
proof (induction sep xs arbitrary: i rule: join.induct)
  case (1 sep)
  then show ?case by simp
next
  case (2 sep x)
  then have "join sep [x] = [] @ [x] ! i @ []" by simp
  then show ?case by blast
next
  case (3 sep x y ys)
  show ?case
  proof (cases i)
    case 0
    have "join sep (x # y # ys) = [] @ (x # y # ys) ! 0 @ (sep @ join sep (y # ys))" by simp
    with 0 show ?thesis by blast
  next
    case (Suc k)
    with 3 obtain a c where "join sep (y # ys) = a @ (y # ys) ! k @ c" by fastforce
    then have "join sep (x # y # ys) = (x @ sep @ a) @ (x # y # ys) ! Suc k @ c" by simp
    with Suc show ?thesis by blast
  qed
qed

lemma pair_lines_nth:
  "i < length pairs \<Longrightarrow>
   map (\<lambda>(i, p). pairLine i p) (enumerate n pairs) ! i = pairLine (n + i) (pairs ! i)"
  by (simp add: nth_enumerate_eq)

lemma prompt_text:
  "prompt pairs =
     ''You are a UI component matcher.'' @ [CHR 0x0A] @ [CHR 0x0A] @
     ''Rules:'' @ [CHR 0x0A] @
     ''- Ignore dynamic text (price, count, miles, distances).'' @ [CHR 0x0A] @
     ''- Match semantic role + structure.'' @ [CHR 0x0A] @
     ''- Same meaning + same structure = Y'' @ [CHR 0x0A] @
     ''- Otherwise = N'' @ [CHR 0x0A] @ [CHR 0x0A] @
     ''Input:'' @ [CHR 0x0A] @
     join [CHR 0x0A] (map (\<lambda>(i, p). pairLine i p) (enumerate 0 pairs)) @
     [CHR 0x0A] @ [CHR 0x0A] @
     ''Output format:'' @ [CHR 0x0A] @
     ''<index>:Y or <index>:N''"
  by (simp add: prompt_def trim_def isWhiteSpace_def)

lemma prompt_carries:
  assumes "i < length pairs"
  shows "includes_str (prompt pairs) (pairLine i (pairs ! i))"
proof -
  let ?ls = "map (\<lambda>(i, p). pairLine i p) (enumerate 0 pairs)"
  from assms have "i < length ?ls" by simp
  from join_nth [OF this, of "[CHR 0x0A]"]
  obtain a c where j: "join [CHR 0x0A] ?ls = a @ ?ls ! i @ c" by blast
  from assms have n: "?ls ! i = pairLine i (pairs ! i)"
    using pair_lines_nth [of i pairs 0] by simp
  let ?h = "''You are a UI component matcher.'' @ [CHR 0x0A] @ [CHR 0x0A] @
     ''Rules:'' @ [CHR 0x0A] @
     ''- Ignore dynamic text (price, count, miles, distances).'' @ [CHR 0x0A] @
     ''- Match semantic role + structure.'' @ [CHR 0x0A] @
     ''- Same meaning + same structure = Y'' @ [CHR 0x0A] @
     ''- Otherwise = N'' @ [CHR 0x0A] @ [CHR 0x0A] @
     ''Input:'' @ [CHR 0x0A]"
  let ?f = "[CHR 0x0A] @ [CHR 0x0A] @ ''Output format:'' @ [CHR 0x0A] @ ''<index>:Y or <index>:N''"
  have "prompt pairs = ?h @ join [CHR 0x0A] ?ls @ ?f"
    unfolding prompt_text [of pairs] by simp
  then obtain h f where "prompt pairs = h @ join [CHR 0x0A] ?ls @ f" by blast
  with j n have "prompt pairs = (h @ a) @ pairLine i (pairs ! i) @ (c @ f)" by simp
  then show ?thesis
    using includes_str_middle [of "h @ a" "pairLine i (pairs ! i)" "c @ f"] by simp
qed

text \<open>
  C9, as the code has it. Let the matcher be between two windows, the queue empty and no
  timer set, and let N calls, N at least 1, bring ambiguous pairs before the timer fires.
  Until it fires, no batch is handed over and no request is posted. When it fires, the
  queue is emptied and the timer cleared in the same step in which one batch is handed to
  \<open>batchStructuralMatch\<close>, the N pairs in the order of the calls, and its first request is
  posted. When the batch returns, it has posted this request and, if the oracle answered
  it with 401 and the token was refreshed, a second one with the refreshed token; its N
  promises are resolved, and the matcher is as it was before the window but for this
  batch, these requests and these resolutions. Each request of a batch holds, in its
  prompt, the line of every pair of the batch, and asks for five tokens a pair. Over any
  sequence of events from the start, the batches handed over and the queue together hold
  every ambiguous pair once, in the order of the calls.
\<close>

theorem batch_coalescing:
  "(calls \<noteq> [] \<and> (\<forall>call \<in> set calls. ambiguous (fst call) (fst (snd call))) \<and>
    comparisonQueue m = [] \<and> \<not> flushTimer m \<longrightarrow>
      batches (run (calls_of calls) m) = batches m \<and>
      posts (run (calls_of calls) m) = posts m \<and>
      comparisonQueue (run (calls_of calls) m) = map pending_of calls \<and>
      run (calls_of calls @ [TimerFires]) m =
        m\<lparr>awaiting := awaiting m @ [map pending_of calls],
          batches := batches m @ [map pending_of calls],
          posts := posts m @ [callAI (map pending_of calls) InitialToken]\<rparr> \<and>
      run (calls_of calls @ [TimerFires, BatchReturns (length (awaiting m)) env]) m =
        m\<lparr>batches := batches m @ [map pending_of calls],
          posts := posts m @ posts_of (map pending_of calls) env,
          resolved := resolved m @ settle (map pending_of calls) env\<rparr>) \<and>
   (i < length batch \<longrightarrow>
      includes_str (rq_prompt (callAI batch tok)) (pairLine i (batch ! i))) \<and>
   rq_max_tokens (callAI batch tok) = length batch * 5 \<and>
   concat (batches (run es idle)) @ comparisonQueue (run es idle) = concat (map queued_of es) \<and>
   (flushTimer (run es idle) \<longleftrightarrow> comparisonQueue (run es idle) \<noteq> [])"
proof (intro conjI impI)
  assume h: "calls \<noteq> [] \<and> (\<forall>call \<in> set calls. ambiguous (fst call) (fst (snd call))) \<and>
    comparisonQueue m = [] \<and> \<not> flushTimer m"
  then have ne: "calls \<noteq> []"
    and amb: "\<forall>call \<in> set calls. ambiguous (fst call) (fst (snd call))"
    and q: "comparisonQueue m = []" and t: "\<not> flushTimer m"
    by simp_all
  show "batches (run (calls_of calls) m) = batches m"
    by (simp add: run_calls [OF amb])
  show "posts (run (calls_of calls) m) = posts m"
    by (simp add: run_calls [OF amb])
  show "comparisonQueue (run (calls_of calls) m) = map pending_of calls"
    by (simp add: run_calls [OF amb] q)
  show "run (calls_of calls @ [TimerFires]) m =
        m\<lparr>awaiting := awaiting m @ [map pending_of calls],
          batches := batches m @ [map pending_of calls],
          posts := posts m @ [callAI (map pending_of calls) InitialToken]\<rparr>"
    by (rule window_flush [OF ne amb q t])
  show "run (calls_of calls @ [TimerFires, BatchReturns (length (awaiting m)) env]) m =
        m\<lparr>batches := batches m @ [map pending_of calls],
          posts := posts m @ posts_of (map pending_of calls) env,
          resolved := resolved m @ settle (map pending_of calls) env\<rparr>"
    by (rule window_settled [OF ne amb q t])
next
  assume "i < length batch"
  then show "includes_str (rq_prompt (callAI batch tok)) (pairLine i (batch ! i))"
    by (simp add: callAI_def prompt_carries)
next
  show "rq_max_tokens (callAI batch tok) = length batch * 5"
    by (simp add: callAI_def)
next
  have i1: "concat (batches idle) @ comparisonQueue idle = []"
    and i2: "flushTimer idle \<longleftrightarrow> comparisonQueue idle \<noteq> []"
    by (simp_all add: idle_def)
  from run_queue [OF i1 i2, of es]
  show "concat (batches (run es idle)) @ comparisonQueue (run es idle) = concat (map queued_of es)"
    and "flushTimer (run es idle) \<longleftrightarrow> comparisonQueue (run es idle) \<noteq> []"
    by simp_all
qed

theorem batch_coalescing_witness:
  "two_calls \<noteq> [] \<and>
   ambiguous (group_of search_web) (group_of search_field) \<and>
   ambiguous (group_of search_web) (group_of search_box) \<and>
   comparisonQueue idle = [] \<and> \<not> flushTimer idle \<and>
   batches (run (calls_of two_calls) idle) = batches idle \<and>
   posts (run (calls_of two_calls) idle) = posts idle \<and>
   comparisonQueue (run (calls_of two_calls) idle) = map pending_of two_calls \<and>
   run (calls_of two_calls @ [TimerFires]) idle =
     idle\<lparr>awaiting := awaiting idle @ [map pending_of two_calls],
          batches := batches idle @ [map pending_of two_calls],
          posts := posts idle @ [callAI (map pending_of two_calls) InitialToken]\<rparr> \<and>
   run (calls_of two_calls @ [TimerFires, BatchReturns (length (awaiting idle)) (answering ''1:Y'')])
       idle =
     idle\<lparr>batches := batches idle @ [map pending_of two_calls],
          posts := posts idle @ posts_of (map pending_of two_calls) (answering ''1:Y''),
          resolved := resolved idle @ settle (map pending_of two_calls) (answering ''1:Y'')\<rparr> \<and>
   map pending_of two_calls = two_pairs \<and>
   posts_of two_pairs (answering ''1:Y'') = [callAI two_pairs InitialToken] \<and>
   1 < length two_pairs \<and>
   includes_str (rq_prompt (callAI two_pairs InitialToken)) (pairLine 1 (two_pairs ! 1)) \<and>
   pairLine 1 (two_pairs ! 1) = ''2) C1=n:Search Input|t:1|b:0  C2=n:Search Box|t:1|b:0'' \<and>
   rq_max_tokens (callAI two_pairs InitialToken) = 10"
proof -
  have ne: "two_calls \<noteq> []"
    and a1: "ambiguous (group_of search_web) (group_of search_field)"
    and a2: "ambiguous (group_of search_web) (group_of search_box)"
    and q: "comparisonQueue idle = []"
    and t: "\<not> flushTimer idle"
    and p: "map pending_of two_calls = two_pairs"
    and o: "posts_of two_pairs (answering ''1:Y'') = [callAI two_pairs InitialToken]"
    and l: "1 < length two_pairs"
    and pl: "pairLine 1 (two_pairs ! 1) = ''2) C1=n:Search Input|t:1|b:0  C2=n:Search Box|t:1|b:0''"
    and mt: "rq_max_tokens (callAI two_pairs InitialToken) = 10"
    by code_simp+
  from a1 a2 have amb: "\<forall>call \<in> set two_calls. ambiguous (fst call) (fst (snd call))"
    by (simp add: two_calls_def)
  from ne amb q t have h: "two_calls \<noteq> [] \<and>
      (\<forall>call \<in> set two_calls. ambiguous (fst call) (fst (snd call))) \<and>
      comparisonQueue idle = [] \<and> \<not> flushTimer idle"
    by (intro conjI)
  note b = batch_coalescing [of two_calls idle "answering ''1:Y''" 1 two_pairs InitialToken "[]"]
  note c = mp [OF conjunct1 [OF b] h]
  note c1 = conjunct1 [OF c]
  note c2 = conjunct1 [OF conjunct2 [OF c]]
  note c3 = conjunct1 [OF conjunct2 [OF conjunct2 [OF c]]]
  note c4 = conjunct1 [OF conjunct2 [OF conjunct2 [OF conjunct2 [OF c]]]]
  note c5 = conjunct2 [OF conjunct2 [OF conjunct2 [OF conjunct2 [OF c]]]]
  note i = mp [OF conjunct1 [OF conjunct2 [OF b]] l]
  from ne a1 a2 q t c1 c2 c3 c4 c5 p o l i pl mt show ?thesis
    by (intro conjI)
qed

text \<open>
  The claim as stated fails where the oracle refuses the token of the first request: the
  one batch of the window posts two requests, the second after the refresh of the token.
\<close>

theorem batch_coalescing_counterexample:
  "batches (run (calls_of two_calls @ [TimerFires, BatchReturns 0 (expired ''1:Y'')]) idle) =
     [two_pairs] \<and>
   map rq_token (posts (run (calls_of two_calls @ [TimerFires, BatchReturns 0 (expired ''1:Y'')]) idle)) =
     [InitialToken, RefreshedToken] \<and>
   map rq_prompt (posts (run (calls_of two_calls @ [TimerFires, BatchReturns 0 (expired ''1:Y'')]) idle)) =
     [prompt two_pairs, prompt two_pairs] \<and>
   resolved (run (calls_of two_calls @ [TimerFires, BatchReturns 0 (expired ''1:Y'')]) idle) =
     [(0, True), (1, False)]"
  by code_simp

end
